theory Spec2Isabelle
  imports Complex_Main "HOL-Library.Multiset" "HOL-Library.Product_Lexorder" "HOL-Library.Sublist"
begin

section \<open>The syntax tree\<close>

text \<open>
  Both analyzers of the repository walk the tree that the interpreter's \<^verbatim>\<open>ast.parse\<close>
  returns. The node classes the visitors look at are constructors of their own, and so are
  the other kinds of function definition and of assignment (\<^verbatim>\<open>async def\<close>, annotated and
  augmented assignment, the assignment expression \<^verbatim>\<open>:=\<close>), which no visitor has a method
  for; every other node class (\<^verbatim>\<open>Module\<close>, \<^verbatim>\<open>Expr\<close>, \<^verbatim>\<open>Try\<close>, \<^verbatim>\<open>With\<close>,
  \<^verbatim>\<open>arguments\<close>, ...) is \<open>Other\<close> with its child nodes.
  A constructor's \<open>int\<close> is the node's \<^verbatim>\<open>lineno\<close>; a list of children holds the child
  nodes of the remaining fields in field order, the order in which
  \<^verbatim>\<open>NodeVisitor.generic_visit\<close> walks them.
\<close>

text \<open>The value of a literal: a string, bytes, a number (integer, float or complex, the
  latter two as rationals), a boolean, \<^verbatim>\<open>None\<close> or \<^verbatim>\<open>...\<close>.\<close>

datatype const_value =
    CStr string | CBytes string | CInt int | CFloat rat | CComplex rat rat
  | CBool bool | CNone | CEllipsis

datatype operator = Add | Sub | Mult | Div | Mod

datatype boolop = And | Or

datatype ast =
    FunctionDef int string "ast list"
  | AsyncFunctionDef int string "ast list"
  | ClassDef int string "ast list"
  | Return int "ast option"
  | Assign int "ast list" ast
  | AugAssign int ast operator ast
  | AnnAssign int ast ast "ast option"
  | NamedExpr int ast ast
  | For int "ast list"
  | While int "ast list"
  | If int "ast list"
  | BoolOp int boolop "ast list"
  | BinOp int ast operator ast
  | Call int ast "ast list"
  | Constant int const_value
  | Attribute int ast string
  | Name int string
  | ExceptHandler int "ast option" "ast list"
  | Other "ast list"

text \<open>\<^verbatim>\<open>ast.iter_child_nodes\<close>: the child nodes in field order. The operator of a
  \<open>BinOp\<close> and the context of a \<open>Name\<close> are childless nodes no visitor of
  \<^verbatim>\<open>CyclomaticComplexityAnalyzer.py\<close> has a method for; the \<open>And\<close>/\<open>Or\<close> node of a
  \<open>BoolOp\<close> is kept as its \<open>boolop\<close> field.\<close>

fun opt_list :: "'a option \<Rightarrow> 'a list" where
  "opt_list None = []"
| "opt_list (Some x) = [x]"

fun iter_child_nodes :: "ast \<Rightarrow> ast list" where
  "iter_child_nodes (FunctionDef l n cs) = cs"
| "iter_child_nodes (AsyncFunctionDef l n cs) = cs"
| "iter_child_nodes (ClassDef l n cs) = cs"
| "iter_child_nodes (Return l v) = opt_list v"
| "iter_child_nodes (Assign l ts v) = ts @ [v]"
| "iter_child_nodes (AugAssign l t op v) = [t, v]"
| "iter_child_nodes (AnnAssign l t a v) = [t, a] @ opt_list v"
| "iter_child_nodes (NamedExpr l t v) = [t, v]"
| "iter_child_nodes (For l cs) = cs"
| "iter_child_nodes (While l cs) = cs"
| "iter_child_nodes (If l cs) = cs"
| "iter_child_nodes (BoolOp l op vs) = vs"
| "iter_child_nodes (BinOp l a op b) = [a, b]"
| "iter_child_nodes (Call l f args) = f # args"
| "iter_child_nodes (Constant l c) = []"
| "iter_child_nodes (Attribute l v a) = [v]"
| "iter_child_nodes (Name l n) = []"
| "iter_child_nodes (ExceptHandler l t cs) = opt_list t @ cs"
| "iter_child_nodes (Other cs) = cs"

section \<open>CyclomaticComplexityAnalyzer.py: the complexity visitor\<close>

record decision_point =
  type :: string
  line :: int

record ComplexityMetric =
  name :: string
  complexity :: int
  line_number :: int
  type_of_unit :: string
  nested_depth :: int
  decision_points :: "decision_point list"

record ComplexityVisitor =
  metrics :: "ComplexityMetric list"
  total_complexity :: int
  current_function :: "string option"
  current_class :: "string option"
  depth :: int
  all_decision_points :: "decision_point list"
  current_decision_points :: "decision_point list"

definition ComplexityVisitor_init :: ComplexityVisitor where
  "ComplexityVisitor_init =
     \<lparr>metrics = [], total_complexity = 1, current_function = None, current_class = None,
      depth = 0, all_decision_points = [], current_decision_points = []\<rparr>"

text \<open>Python's truth test of \<^verbatim>\<open>self.current_function\<close>: \<^verbatim>\<open>None\<close> and the empty
  string are false.\<close>

fun truthy :: "string option \<Rightarrow> bool" where
  "truthy None = False"
| "truthy (Some n) = (n \<noteq> [])"

definition add_decision_point :: "int \<Rightarrow> string \<Rightarrow> ComplexityVisitor \<Rightarrow> ComplexityVisitor" where
  "add_decision_point lineno decision_type s =
     (let point = \<lparr>type = decision_type, line = lineno\<rparr>
      in s\<lparr>current_decision_points := current_decision_points s @ [point],
           all_decision_points := all_decision_points s @ [point],
           total_complexity := total_complexity s + 1\<rparr>)"

definition enter_function :: "string \<Rightarrow> ComplexityVisitor \<Rightarrow> ComplexityVisitor" where
  "enter_function n s =
     s\<lparr>current_function := Some n, current_decision_points := [], depth := depth s + 1\<rparr>"

definition leave_function ::
  "int \<Rightarrow> string \<Rightarrow> ComplexityVisitor \<Rightarrow> ComplexityVisitor \<Rightarrow> ComplexityVisitor" where
  "leave_function l n s s2 =
     (let function_complexity = total_complexity s2 - total_complexity s + 1
      in s2\<lparr>metrics := metrics s2 @
                [\<lparr>name = n, complexity = function_complexity, line_number = l,
                  type_of_unit = ''function'', nested_depth = depth s2,
                  decision_points = current_decision_points s2\<rparr>],
              depth := depth s2 - 1,
              current_function := current_function s,
              current_decision_points := current_decision_points s\<rparr>)"

definition enter_class :: "string \<Rightarrow> ComplexityVisitor \<Rightarrow> ComplexityVisitor" where
  "enter_class n s = s\<lparr>current_class := Some n, depth := depth s + 1\<rparr>"

definition leave_class :: "ComplexityVisitor \<Rightarrow> ComplexityVisitor \<Rightarrow> ComplexityVisitor" where
  "leave_class s s2 = s2\<lparr>depth := depth s2 - 1, current_class := current_class s\<rparr>"

lemma size_in_list: "c \<in> set cs \<Longrightarrow> size (c::ast) < Suc (size_list size cs)"
  by (induction cs) auto

lemma size_in_opt: "c \<in> set (opt_list v) \<Longrightarrow> size (c::ast) < Suc (size_option size v)"
  by (cases v) auto

lemma size_child: "c \<in> set (iter_child_nodes t) \<Longrightarrow> size c < size t"
  by (cases t) (auto dest: size_in_list size_in_opt)

text \<open>\<^verbatim>\<open>ComplexityVisitor.visit\<close>: the dispatch of \<^verbatim>\<open>NodeVisitor.visit\<close> on the node's
  class, with \<^verbatim>\<open>generic_visit\<close> written as the fold over the child nodes.\<close>

function (sequential) visit :: "ast \<Rightarrow> ComplexityVisitor \<Rightarrow> ComplexityVisitor" where
  "visit (ClassDef l n cs) s =
     leave_class s (fold visit (iter_child_nodes (ClassDef l n cs)) (enter_class n s))"
| "visit (FunctionDef l n cs) s =
     leave_function l n s (fold visit (iter_child_nodes (FunctionDef l n cs)) (enter_function n s))"
| "visit (If l cs) s =
     fold visit (iter_child_nodes (If l cs)) (add_decision_point l ''if'' s)"
| "visit (While l cs) s =
     fold visit (iter_child_nodes (While l cs)) (add_decision_point l ''loop'' s)"
| "visit (For l cs) s =
     fold visit (iter_child_nodes (For l cs)) (add_decision_point l ''loop'' s)"
| "visit (ExceptHandler l t cs) s =
     fold visit (iter_child_nodes (ExceptHandler l t cs)) (add_decision_point l ''except'' s)"
| "visit (Return l v) s =
     fold visit (iter_child_nodes (Return l v))
       (if truthy (current_function s) then add_decision_point l ''return'' s else s)"
| "visit (BoolOp l op vs) s =
     fold visit (iter_child_nodes (BoolOp l op vs))
       (if op = And \<or> op = Or then add_decision_point l ''boolean_op'' s else s)"
| "visit node s = fold visit (iter_child_nodes node) s"
  by pat_completeness auto
termination
  by (relation "measure (\<lambda>(t, s). size t)")
     (auto simp del: iter_child_nodes.simps dest: size_child)


definition analyze_tree :: "ast \<Rightarrow> ComplexityVisitor" where
  "analyze_tree tree = visit tree ComplexityVisitor_init"

section \<open>What the traversal records, stated on the tree\<close>

text \<open>\<^verbatim>\<open>ast.walk\<close>: the node and all its descendants (here in depth-first order; the
  source only counts and filters the nodes it yields).\<close>

function walk :: "ast \<Rightarrow> ast list" where
  "walk t = t # concat (map walk (iter_child_nodes t))"
  by pat_completeness auto
termination
  by (relation "measure size") (auto simp del: iter_child_nodes.simps dest: size_child)

declare walk.simps [simp del]

text \<open>The decision point a node records by itself when it is visited in the function
  context \<open>cur\<close>.\<close>

fun own_point :: "string option \<Rightarrow> ast \<Rightarrow> decision_point list" where
  "own_point cur (If l cs) = [\<lparr>type = ''if'', line = l\<rparr>]"
| "own_point cur (While l cs) = [\<lparr>type = ''loop'', line = l\<rparr>]"
| "own_point cur (For l cs) = [\<lparr>type = ''loop'', line = l\<rparr>]"
| "own_point cur (ExceptHandler l t cs) = [\<lparr>type = ''except'', line = l\<rparr>]"
| "own_point cur (Return l v) = (if truthy cur then [\<lparr>type = ''return'', line = l\<rparr>] else [])"
| "own_point cur (BoolOp l op vs) = [\<lparr>type = ''boolean_op'', line = l\<rparr>]"
| "own_point cur t = []"

text \<open>The function context in which the children of a node are visited.\<close>

fun context_below :: "string option \<Rightarrow> ast \<Rightarrow> string option" where
  "context_below cur (FunctionDef l n cs) = Some n"
| "context_below cur t = cur"

fun is_FunctionDef :: "ast \<Rightarrow> bool" where
  "is_FunctionDef (FunctionDef l n cs) = True"
| "is_FunctionDef t = False"

text \<open>All decision points recorded while the subtree \<open>t\<close> is traversed, in order.\<close>

function points_recorded :: "string option \<Rightarrow> ast \<Rightarrow> decision_point list" where
  "points_recorded cur t =
     own_point cur t @ concat (map (points_recorded (context_below cur t)) (iter_child_nodes t))"
  by pat_completeness auto
termination
  by (relation "measure (\<lambda>(cur, t). size t)")
     (auto simp del: iter_child_nodes.simps dest: size_child)

declare points_recorded.simps [simp del]

text \<open>The decision points recorded against the context that is current when \<open>t\<close> is
  visited: those of \<open>t\<close> outside every function definition nested in it.\<close>

function points_against :: "string option \<Rightarrow> ast \<Rightarrow> decision_point list" where
  "points_against cur t =
     (if is_FunctionDef t then []
      else own_point cur t @ concat (map (points_against cur) (iter_child_nodes t)))"
  by pat_completeness auto
termination
  by (relation "measure (\<lambda>(cur, t). size t)")
     (auto simp del: iter_child_nodes.simps dest: size_child)

declare points_against.simps [simp del]

text \<open>The metric of a function definition at nesting depth \<open>d\<close> (the depth inside it).\<close>

definition metric_of :: "int \<Rightarrow> int \<Rightarrow> string \<Rightarrow> ast list \<Rightarrow> ComplexityMetric" where
  "metric_of d l n cs =
     \<lparr>name = n,
      complexity = 1 + int (length (concat (map (points_recorded (Some n)) cs))),
      line_number = l, type_of_unit = ''function'', nested_depth = d,
      decision_points = concat (map (points_against (Some n)) cs)\<rparr>"

fun depth_below :: "int \<Rightarrow> ast \<Rightarrow> int" where
  "depth_below d (FunctionDef l n cs) = d + 1"
| "depth_below d (ClassDef l n cs) = d + 1"
| "depth_below d t = d"

fun own_metric :: "int \<Rightarrow> ast \<Rightarrow> ComplexityMetric list" where
  "own_metric d (FunctionDef l n cs) = [metric_of (d + 1) l n cs]"
| "own_metric d t = []"

text \<open>The metrics emitted while the subtree \<open>t\<close> is traversed from depth \<open>d\<close>: one per
  function definition, on leaving it.\<close>

function emitted :: "int \<Rightarrow> ast \<Rightarrow> ComplexityMetric list" where
  "emitted d t = concat (map (emitted (depth_below d t)) (iter_child_nodes t)) @ own_metric d t"
  by pat_completeness auto
termination
  by (relation "measure (\<lambda>(d, t). size t)")
     (auto simp del: iter_child_nodes.simps dest: size_child)

declare emitted.simps [simp del]

definition visit_effect :: "ast \<Rightarrow> bool" where
  "visit_effect t \<longleftrightarrow> (\<forall>s.
     all_decision_points (visit t s) = all_decision_points s @ points_recorded (current_function s) t \<and>
     total_complexity (visit t s) =
       total_complexity s + int (length (points_recorded (current_function s) t)) \<and>
     current_decision_points (visit t s) =
       current_decision_points s @ points_against (current_function s) t \<and>
     metrics (visit t s) = metrics s @ emitted (depth s) t \<and>
     current_function (visit t s) = current_function s \<and>
     current_class (visit t s) = current_class s \<and>
     depth (visit t s) = depth s)"

lemma fold_visit_effect:
  assumes "\<And>c. c \<in> set cs \<Longrightarrow> visit_effect c"
  shows "all_decision_points (fold visit cs s) =
           all_decision_points s @ concat (map (points_recorded (current_function s)) cs) \<and>
         total_complexity (fold visit cs s) =
           total_complexity s + int (length (concat (map (points_recorded (current_function s)) cs))) \<and>
         current_decision_points (fold visit cs s) =
           current_decision_points s @ concat (map (points_against (current_function s)) cs) \<and>
         metrics (fold visit cs s) = metrics s @ concat (map (emitted (depth s)) cs) \<and>
         current_function (fold visit cs s) = current_function s \<and>
         current_class (fold visit cs s) = current_class s \<and>
         depth (fold visit cs s) = depth s"
  using assms
proof (induction cs arbitrary: s)
  case Nil
  show ?case by simp
next
  case (Cons c cs)
  have c: "visit_effect c" using Cons.prems by simp
  have cs: "\<And>x. x \<in> set cs \<Longrightarrow> visit_effect x" using Cons.prems by simp
  note ih = Cons.IH [OF cs, of "visit c s"]
  from c have step: "all_decision_points (visit c s) =
       all_decision_points s @ points_recorded (current_function s) c"
    "total_complexity (visit c s) =
       total_complexity s + int (length (points_recorded (current_function s) c))"
    "current_decision_points (visit c s) =
       current_decision_points s @ points_against (current_function s) c"
    "metrics (visit c s) = metrics s @ emitted (depth s) c"
    "current_function (visit c s) = current_function s"
    "current_class (visit c s) = current_class s"
    "depth (visit c s) = depth s"
    unfolding visit_effect_def by blast+
  show ?case using ih by (simp add: step)
qed

fun is_ClassDef :: "ast \<Rightarrow> bool" where
  "is_ClassDef (ClassDef l n cs) = True"
| "is_ClassDef t = False"

definition record_points :: "decision_point list \<Rightarrow> ComplexityVisitor \<Rightarrow> ComplexityVisitor" where
  "record_points ps s =
     s\<lparr>current_decision_points := current_decision_points s @ ps,
       all_decision_points := all_decision_points s @ ps,
       total_complexity := total_complexity s + int (length ps)\<rparr>"

lemma boolop_cases: "op = And \<or> op = Or"
  by (cases op) simp_all

lemma visit_plain:
  "\<not> is_FunctionDef t \<Longrightarrow> \<not> is_ClassDef t \<Longrightarrow>
   visit t s = fold visit (iter_child_nodes t) (record_points (own_point (current_function s) t) s)"
  by (cases t) (simp_all add: record_points_def add_decision_point_def boolop_cases Let_def)

lemma plain_context:
  "\<not> is_FunctionDef t \<Longrightarrow> context_below cur t = cur"
  "\<not> is_FunctionDef t \<Longrightarrow> \<not> is_ClassDef t \<Longrightarrow> depth_below d t = d"
  "\<not> is_FunctionDef t \<Longrightarrow> own_metric d t = []"
  by (cases t; simp)+

lemma visit_effect_all: "visit_effect t"
proof (induction t rule: measure_induct_rule [where f = size])
  case (less t)
  have kids: "\<And>c. c \<in> set (iter_child_nodes t) \<Longrightarrow> visit_effect c"
    using less size_child by blast
  consider (F) l n cs where "t = FunctionDef l n cs"
    | (C) l n cs where "t = ClassDef l n cs"
    | (P) "\<not> is_FunctionDef t" "\<not> is_ClassDef t"
    by (cases t) simp_all
  then show ?case
  proof cases
    case F
    have k: "\<And>c. c \<in> set cs \<Longrightarrow> visit_effect c" using kids F by simp
    note f = fold_visit_effect [OF k]
    show ?thesis
      unfolding visit_effect_def F
      by (simp add: f points_recorded.simps [of _ "FunctionDef l n cs"]
            points_against.simps [of _ "FunctionDef l n cs"]
            emitted.simps [of _ "FunctionDef l n cs"]
            enter_function_def leave_function_def metric_of_def Let_def)
  next
    case C
    have k: "\<And>c. c \<in> set cs \<Longrightarrow> visit_effect c" using kids C by simp
    note f = fold_visit_effect [OF k]
    show ?thesis
      unfolding visit_effect_def C
      by (simp add: f points_recorded.simps [of _ "ClassDef l n cs"]
            points_against.simps [of _ "ClassDef l n cs"]
            emitted.simps [of _ "ClassDef l n cs"]
            enter_class_def leave_class_def)
  next
    case P
    note f = fold_visit_effect [OF kids]
    show ?thesis
      unfolding visit_effect_def
      by (simp add: visit_plain P f plain_context points_recorded.simps [of _ t]
            points_against.simps [of _ t] emitted.simps [of _ t] record_points_def)
  qed
qed


lemma analyze_tree_effect:
  "all_decision_points (analyze_tree tree) = points_recorded None tree"
  "total_complexity (analyze_tree tree) = 1 + int (length (points_recorded None tree))"
  "current_decision_points (analyze_tree tree) = points_against None tree"
  "metrics (analyze_tree tree) = emitted 0 tree"
  using visit_effect_all [of tree]
  by (simp_all add: visit_effect_def analyze_tree_def ComplexityVisitor_init_def)

subsection \<open>Units without decisions\<close>

fun is_branch_node :: "ast \<Rightarrow> bool" where
  "is_branch_node (If l cs) = True"
| "is_branch_node (While l cs) = True"
| "is_branch_node (For l cs) = True"
| "is_branch_node (ExceptHandler l t cs) = True"
| "is_branch_node (BoolOp l op vs) = True"
| "is_branch_node t = False"

fun is_Return :: "ast \<Rightarrow> bool" where
  "is_Return (Return l v) = True"
| "is_Return t = False"

text \<open>A unit with no conditional, loop, exception handler or boolean operator, and no
  return statement below a function definition.\<close>

definition unit_without_decisions :: "ast \<Rightarrow> bool" where
  "unit_without_decisions tree \<longleftrightarrow>
     (\<forall>x \<in> set (walk tree). \<not> is_branch_node x) \<and>
     (\<forall>f \<in> set (walk tree). is_FunctionDef f \<longrightarrow> (\<forall>x \<in> set (walk f). \<not> is_Return x))"

lemma own_point_empty:
  "\<not> is_branch_node t \<Longrightarrow> (truthy cur \<longrightarrow> \<not> is_Return t) \<Longrightarrow> own_point cur t = []"
  by (cases t) simp_all

lemma walk_self: "t \<in> set (walk t)"
  by (subst walk.simps) simp

lemma walk_child: "c \<in> set (iter_child_nodes t) \<Longrightarrow> x \<in> set (walk c) \<Longrightarrow> x \<in> set (walk t)"
  by (subst walk.simps) auto

lemma walk_trans: "x \<in> set (walk c) \<Longrightarrow> c \<in> set (walk t) \<Longrightarrow> x \<in> set (walk t)"
proof (induction t rule: measure_induct_rule [where f = size])
  case (less t)
  from less.prems(2) consider "c = t"
    | k where "k \<in> set (iter_child_nodes t)" "c \<in> set (walk k)"
    by (subst (asm) walk.simps) auto
  then show ?case
  proof cases
    case 1
    then show ?thesis using less.prems(1) by simp
  next
    case 2
    then have "x \<in> set (walk k)"
      using less.IH [OF size_child] less.prems(1) by blast
    then show ?thesis using walk_child [OF 2(1)] by blast
  qed
qed

lemma no_points_recorded:
  "\<lbrakk>\<forall>x \<in> set (walk t). \<not> is_branch_node x;
    truthy cur \<longrightarrow> (\<forall>x \<in> set (walk t). \<not> is_Return x);
    \<forall>f \<in> set (walk t). is_FunctionDef f \<longrightarrow> (\<forall>x \<in> set (walk f). \<not> is_Return x)\<rbrakk>
   \<Longrightarrow> points_recorded cur t = []"
proof (induction cur t rule: points_recorded.induct)
  case (1 cur t)
  have own: "own_point cur t = []"
    using "1.prems" walk_self [of t] by (intro own_point_empty) auto
  have "points_recorded (context_below cur t) c = []" if c: "c \<in> set (iter_child_nodes t)" for c
  proof (rule "1.IH" [OF c])
    show "\<forall>x \<in> set (walk c). \<not> is_branch_node x"
      using "1.prems"(1) walk_child [OF c] by blast
    show "\<forall>f \<in> set (walk c). is_FunctionDef f \<longrightarrow> (\<forall>x \<in> set (walk f). \<not> is_Return x)"
      using "1.prems"(3) walk_child [OF c] by blast
    show "truthy (context_below cur t) \<longrightarrow> (\<forall>x \<in> set (walk c). \<not> is_Return x)"
    proof (cases "is_FunctionDef t")
      case True
      then have "\<forall>x \<in> set (walk t). \<not> is_Return x"
        using "1.prems"(3) walk_self [of t] by blast
      then show ?thesis using walk_child [OF c] by blast
    next
      case False
      then have "context_below cur t = cur" by (cases t) simp_all
      then show ?thesis using "1.prems"(2) walk_child [OF c] by auto
    qed
  qed
  then show ?case
    by (subst points_recorded.simps) (simp add: own)
qed

text \<open>C2: the overall complexity is one plus the number of decision points recorded during
  the traversal, for every tree; for a unit without conditionals, loops, exception handlers,
  boolean operators and returns inside functions it is 1.\<close>

theorem overall_complexity_counts_points:
  "total_complexity (analyze_tree tree) = 1 + int (length (all_decision_points (analyze_tree tree)))
   \<and> (unit_without_decisions tree \<longrightarrow> total_complexity (analyze_tree tree) = 1)"
proof -
  have "points_recorded None tree = []" if "unit_without_decisions tree"
    using that unfolding unit_without_decisions_def by (intro no_points_recorded) simp_all
  then show ?thesis by (auto simp: analyze_tree_effect)
qed

definition unit_plain :: ast where
  "unit_plain =
     Other [FunctionDef 1 ''f'' [Other [], Assign 2 [Name 2 ''x''] (Constant 2 (CInt 1))],
            Return 4 None]"

theorem overall_complexity_counts_points_witness:
  "unit_without_decisions unit_plain \<and> total_complexity (analyze_tree unit_plain) = 1
   \<and> all_decision_points (analyze_tree unit_plain) = []"
proof -
  have h: "unit_without_decisions unit_plain"
    by code_simp
  have e: "all_decision_points (analyze_tree unit_plain) = []"
    by code_simp
  show ?thesis
    using overall_complexity_counts_points [of unit_plain] h e by simp
qed

subsection \<open>Metrics of function definitions\<close>

lemma emitted_has_metric:
  "FunctionDef l n cs \<in> set (walk t) \<Longrightarrow> \<exists>d. metric_of d l n cs \<in> set (emitted d0 t)"
proof (induction d0 t rule: emitted.induct)
  case (1 d0 t)
  from "1.prems" consider (self) "t = FunctionDef l n cs"
    | (child) c where "c \<in> set (iter_child_nodes t)" "FunctionDef l n cs \<in> set (walk c)"
    by (subst (asm) walk.simps) auto
  then show ?case
  proof cases
    case self
    then show ?thesis by (subst emitted.simps) auto
  next
    case child
    from "1.IH" [OF child] obtain d
      where "metric_of d l n cs \<in> set (emitted (depth_below d0 t) c)" by blast
    with child(1) show ?thesis by (subst emitted.simps) auto
  qed
qed

lemma length_concat_le:
  "(\<And>c. c \<in> set cs \<Longrightarrow> length (f c) \<le> length (g c)) \<Longrightarrow>
   length (concat (map f cs)) \<le> length (concat (map g cs))"
  by (induction cs) (simp_all add: add_mono)

lemma concat_map_eq:
  "(\<And>c. c \<in> set cs \<Longrightarrow> f c = g c) \<Longrightarrow> concat (map f cs) = concat (map g cs)"
  by (induction cs) simp_all

lemma length_points_against_le:
  "length (points_against cur t) \<le> length (points_recorded cur t)"
proof (induction t arbitrary: cur rule: measure_induct_rule [where f = size])
  case (less t)
  show ?case
  proof (cases "is_FunctionDef t")
    case True
    then show ?thesis by (subst points_against.simps) simp
  next
    case False
    then have ctx: "context_below cur t = cur" by (cases t) simp_all
    have "length (concat (map (points_against cur) (iter_child_nodes t)))
          \<le> length (concat (map (points_recorded cur) (iter_child_nodes t)))"
      by (rule length_concat_le) (simp add: less size_child)
    then show ?thesis
      by (subst points_against.simps, subst points_recorded.simps) (simp add: False ctx)
  qed
qed

lemma points_against_eq_recorded:
  "\<forall>x \<in> set (walk t). \<not> is_FunctionDef x \<Longrightarrow> points_against cur t = points_recorded cur t"
proof (induction t arbitrary: cur rule: measure_induct_rule [where f = size])
  case (less t)
  have nf: "\<not> is_FunctionDef t" using less.prems walk_self by blast
  then have ctx: "context_below cur t = cur" by (cases t) simp_all
  have "points_against cur c = points_recorded cur c" if c: "c \<in> set (iter_child_nodes t)" for c
    using less.IH [OF size_child [OF c]] less.prems walk_child [OF c] by blast
  then have "concat (map (points_against cur) (iter_child_nodes t))
             = concat (map (points_recorded cur) (iter_child_nodes t))"
    by (rule concat_map_eq)
  then show ?case
    by (subst points_against.simps, subst points_recorded.simps) (simp add: nf ctx)
qed

text \<open>A function with a nested function definition: \<^verbatim>\<open>def outer(): def inner(): if x: ...\<close>.\<close>

definition unit_nested :: ast where
  "unit_nested =
     Other [FunctionDef 1 ''outer''
              [Other [], FunctionDef 2 ''inner'' [Other [], If 3 [Name 3 ''x'', Other []]]]]"

text \<open>C1, as stated, fails: the metric of \<open>outer\<close> has complexity 2 and an empty list of
  decision points, because the running total also counts the \<open>if\<close> of \<open>inner\<close>.\<close>

theorem nested_function_complexity_counterexample:
  "metrics (analyze_tree unit_nested) =
     [\<lparr>name = ''inner'', complexity = 2, line_number = 2, type_of_unit = ''function'',
       nested_depth = 2, decision_points = [\<lparr>type = ''if'', line = 3\<rparr>]\<rparr>,
      \<lparr>name = ''outer'', complexity = 2, line_number = 1, type_of_unit = ''function'',
       nested_depth = 1, decision_points = []\<rparr>]"
  by code_simp

text \<open>C1 (amended): for every function definition of the unit a metric is emitted whose
  decision points are those recorded against the function's own context and whose
  complexity is one plus the number of all decision points recorded while the function's
  subtree is traversed, those of nested function definitions included. So the complexity
  is at least one plus the length of the list, and equal to it when no function definition
  is nested in the function; a function whose subtree holds no conditional, loop,
  exception handler, boolean operator or return (an empty function) has complexity 1 and
  no decision point.\<close>

theorem function_metric_complexity:
  assumes "FunctionDef l n cs \<in> set (walk tree)"
  shows "\<exists>m \<in> set (metrics (analyze_tree tree)).
           name m = n \<and> line_number m = l \<and>
           decision_points m = concat (map (points_against (Some n)) cs) \<and>
           complexity m = 1 + int (length (concat (map (points_recorded (Some n)) cs))) \<and>
           1 + int (length (decision_points m)) \<le> complexity m \<and>
           ((\<forall>c \<in> set cs. \<forall>x \<in> set (walk c). \<not> is_FunctionDef x) \<longrightarrow>
              complexity m = 1 + int (length (decision_points m))) \<and>
           ((\<forall>c \<in> set cs. \<forall>x \<in> set (walk c). \<not> is_branch_node x \<and> \<not> is_Return x) \<longrightarrow>
              complexity m = 1 \<and> decision_points m = [])"
proof -
  from emitted_has_metric [OF assms, of 0] obtain d
    where m: "metric_of d l n cs \<in> set (metrics (analyze_tree tree))"
    by (auto simp: analyze_tree_effect)
  have le: "length (concat (map (points_against (Some n)) cs))
            \<le> length (concat (map (points_recorded (Some n)) cs))"
    by (rule length_concat_le) (rule length_points_against_le)
  have eq: "concat (map (points_against (Some n)) cs) = concat (map (points_recorded (Some n)) cs)"
    if "\<forall>c \<in> set cs. \<forall>x \<in> set (walk c). \<not> is_FunctionDef x"
    using that by (intro concat_map_eq points_against_eq_recorded) blast
  have none: "concat (map (points_recorded (Some n)) cs) = []"
    if h: "\<forall>c \<in> set cs. \<forall>x \<in> set (walk c). \<not> is_branch_node x \<and> \<not> is_Return x"
  proof -
    have "points_recorded (Some n) c = []" if c: "c \<in> set cs" for c
    proof (rule no_points_recorded)
      show "\<forall>x \<in> set (walk c). \<not> is_branch_node x" using h c by blast
      show "truthy (Some n) \<longrightarrow> (\<forall>x \<in> set (walk c). \<not> is_Return x)" using h c by blast
      show "\<forall>f \<in> set (walk c). is_FunctionDef f \<longrightarrow> (\<forall>x \<in> set (walk f). \<not> is_Return x)"
        using h c walk_trans by blast
    qed
    then show ?thesis by simp
  qed
  have "complexity (metric_of d l n cs) = 1 \<and> decision_points (metric_of d l n cs) = []"
    if "\<forall>c \<in> set cs. \<forall>x \<in> set (walk c). \<not> is_branch_node x \<and> \<not> is_Return x"
  proof -
    have r: "length (concat (map (points_recorded (Some n)) cs)) = 0"
      using none [OF that] by (simp only: list.size)
    then have "length (concat (map (points_against (Some n)) cs)) = 0"
      using le by linarith
    then have "concat (map (points_against (Some n)) cs) = []"
      by (simp only: length_0_conv)
    then show ?thesis
      using r unfolding metric_of_def by (simp del: concat_eq_Nil_conv length_0_conv)
  qed
  then show ?thesis
    by (intro bexI [OF _ m]) (use le eq in \<open>auto simp: metric_of_def\<close>)
qed

theorem function_metric_complexity_witness:
  "FunctionDef 2 ''inner'' [Other [], If 3 [Name 3 ''x'', Other []]] \<in> set (walk unit_nested) \<and>
   (\<exists>m \<in> set (metrics (analyze_tree unit_nested)).
      name m = ''inner'' \<and> line_number m = 2 \<and>
      complexity m = 1 + int (length (decision_points m)))"
proof -
  have h: "FunctionDef 2 ''inner'' [Other [], If 3 [Name 3 ''x'', Other []]]
           \<in> set (walk unit_nested)"
    by code_simp
  have nf: "\<forall>c \<in> set [Other [], If 3 [Name 3 ''x'', Other []]].
              \<forall>x \<in> set (walk c). \<not> is_FunctionDef x"
    by code_simp
  show ?thesis
    using function_metric_complexity [OF h] h nf by blast
qed

subsection \<open>Return statements\<close>

text \<open>The nodes visited in the function context in which \<open>t\<close> is visited: \<open>t\<close> and its
  descendants outside every function definition nested in it.\<close>

function scope_nodes :: "ast \<Rightarrow> ast list" where
  "scope_nodes t =
     (if is_FunctionDef t then [] else t # concat (map scope_nodes (iter_child_nodes t)))"
  by pat_completeness auto
termination
  by (relation "measure size") (auto simp del: iter_child_nodes.simps dest: size_child)

declare scope_nodes.simps [simp del]

fun return_point :: "ast \<Rightarrow> decision_point list" where
  "return_point (Return l v) = [\<lparr>type = ''return'', line = l\<rparr>]"
| "return_point t = []"

definition early_returns :: "decision_point list \<Rightarrow> decision_point list" where
  "early_returns ps = filter (\<lambda>p. type p = ''return'') ps"

lemma concat_map_concat_map:
  "concat (map f (concat (map g cs))) = concat (map (\<lambda>c. concat (map f (g c))) cs)"
  by (induction cs) simp_all

lemma points_against_scope:
  "points_against cur t = concat (map (own_point cur) (scope_nodes t))"
proof (induction t rule: measure_induct_rule [where f = size])
  case (less t)
  show ?case
  proof (cases "is_FunctionDef t")
    case True
    then show ?thesis
      by (subst points_against.simps, subst scope_nodes.simps) simp
  next
    case False
    have "concat (map (points_against cur) (iter_child_nodes t))
          = concat (map (\<lambda>c. concat (map (own_point cur) (scope_nodes c))) (iter_child_nodes t))"
      by (rule concat_map_eq) (simp add: less size_child)
    then show ?thesis
      by (subst points_against.simps, subst scope_nodes.simps)
         (simp add: False concat_map_concat_map)
  qed
qed

lemma early_returns_own_point:
  "early_returns (own_point cur t) = (if truthy cur then return_point t else [])"
  by (cases t) (simp_all add: early_returns_def)

lemma early_returns_concat:
  "early_returns (concat (map f xs)) = concat (map (\<lambda>x. early_returns (f x)) xs)"
  by (induction xs) (simp_all add: early_returns_def)

lemma early_returns_against:
  "early_returns (points_against cur t) =
     (if truthy cur then concat (map return_point (scope_nodes t)) else [])"
  by (simp add: points_against_scope early_returns_concat early_returns_own_point)

lemma early_returns_against_list:
  "early_returns (concat (map (points_against cur) cs)) =
     (if truthy cur then concat (map return_point (concat (map scope_nodes cs))) else [])"
  by (simp add: early_returns_concat early_returns_against concat_map_concat_map)

lemma visit_Return_effect:
  "all_decision_points (visit (Return l v) s) =
     all_decision_points s @ own_point (current_function s) (Return l v) @
     concat (map (points_recorded (current_function s)) (opt_list v))"
  "current_decision_points (visit (Return l v) s) =
     current_decision_points s @ own_point (current_function s) (Return l v) @
     concat (map (points_against (current_function s)) (opt_list v))"
  "total_complexity (visit (Return l v) s) =
     total_complexity s + int (length (own_point (current_function s) (Return l v))) +
     int (length (concat (map (points_recorded (current_function s)) (opt_list v))))"
  using visit_effect_all [of "Return l v"]
  unfolding visit_effect_def
  by (simp_all add: points_recorded.simps [of _ "Return l v"]
        points_against.simps [of _ "Return l v"])

text \<open>What \<^verbatim>\<open>visit_Return\<close> does where \<^verbatim>\<open>current_function\<close> is the context: a return
  statement visited while it is unset leaves the visitor as visiting its value alone does
  (no decision point, no increment); visited while it is set, it appends exactly one
  \<open>return\<close> point to the current and to the overall list and raises the total by one,
  before its value is visited. On a whole unit: the module-level list holds no \<open>return\<close>
  point, and the metric of a \<^verbatim>\<open>def\<close> holds exactly one \<open>return\<close> point for each
  return statement of its own scope, in order. Only \<^verbatim>\<open>visit_FunctionDef\<close> sets
  \<^verbatim>\<open>current_function\<close>.\<close>

lemma return_in_def_counted:
  "(\<not> truthy (current_function s) \<longrightarrow> visit (Return l v) s = fold visit (opt_list v) s) \<and>
   (truthy (current_function s) \<longrightarrow>
      all_decision_points (visit (Return l v) s) =
        all_decision_points s @ \<lparr>type = ''return'', line = l\<rparr> #
        concat (map (points_recorded (current_function s)) (opt_list v)) \<and>
      current_decision_points (visit (Return l v) s) =
        current_decision_points s @ \<lparr>type = ''return'', line = l\<rparr> #
        concat (map (points_against (current_function s)) (opt_list v)) \<and>
      total_complexity (visit (Return l v) s) =
        total_complexity s + 1 +
        int (length (concat (map (points_recorded (current_function s)) (opt_list v))))) \<and>
   early_returns (current_decision_points (analyze_tree tree)) = [] \<and>
   (FunctionDef lf n cs \<in> set (walk tree) \<and> n \<noteq> [] \<longrightarrow>
      (\<exists>m \<in> set (metrics (analyze_tree tree)).
         name m = n \<and> line_number m = lf \<and>
         early_returns (decision_points m) =
           concat (map return_point (concat (map scope_nodes cs)))))"
proof -
  have a: "\<exists>m \<in> set (metrics (analyze_tree tree)).
         name m = n \<and> line_number m = lf \<and>
         early_returns (decision_points m) =
           concat (map return_point (concat (map scope_nodes cs)))"
    if f: "FunctionDef lf n cs \<in> set (walk tree)" and n: "n \<noteq> []"
  proof -
    from emitted_has_metric [OF f, of 0] obtain d
      where m: "metric_of d lf n cs \<in> set (metrics (analyze_tree tree))"
      by (auto simp: analyze_tree_effect)
    show ?thesis
      by (rule bexI [OF _ m]) (simp add: metric_of_def early_returns_against_list n)
  qed
  have b: "early_returns (current_decision_points (analyze_tree tree)) = []"
    by (simp add: analyze_tree_effect early_returns_against)
  have c: "visit (Return l v) s = fold visit (opt_list v) s"
    if "\<not> truthy (current_function s)"
    using that by simp
  have d: "all_decision_points (visit (Return l v) s) =
        all_decision_points s @ \<lparr>type = ''return'', line = l\<rparr> #
        concat (map (points_recorded (current_function s)) (opt_list v)) \<and>
      current_decision_points (visit (Return l v) s) =
        current_decision_points s @ \<lparr>type = ''return'', line = l\<rparr> #
        concat (map (points_against (current_function s)) (opt_list v)) \<and>
      total_complexity (visit (Return l v) s) =
        total_complexity s + 1 +
        int (length (concat (map (points_recorded (current_function s)) (opt_list v))))"
    if "truthy (current_function s)"
    using that by (simp add: visit_Return_effect del: visit.simps)
  show ?thesis
    using a b c d by blast
qed

definition unit_returns :: ast where
  "unit_returns =
     Other [FunctionDef 1 ''f''
              [Other [], If 2 [Name 2 ''x'', Return 3 (Some (Name 3 ''x''))], Return 4 None],
            Return 6 None]"

lemma return_in_def_counted_example:
  "\<not> truthy (current_function ComplexityVisitor_init) \<and>
   visit (Return 6 None) ComplexityVisitor_init = ComplexityVisitor_init \<and>
   truthy (current_function (enter_function ''f'' ComplexityVisitor_init)) \<and>
   all_decision_points (visit (Return 4 None) (enter_function ''f'' ComplexityVisitor_init)) =
     [\<lparr>type = ''return'', line = 4\<rparr>] \<and>
   FunctionDef 1 ''f''
     [Other [], If 2 [Name 2 ''x'', Return 3 (Some (Name 3 ''x''))], Return 4 None]
     \<in> set (walk unit_returns) \<and>
   (\<exists>m \<in> set (metrics (analyze_tree unit_returns)).
      name m = ''f'' \<and>
      early_returns (decision_points m) =
        [\<lparr>type = ''return'', line = 3\<rparr>, \<lparr>type = ''return'', line = 4\<rparr>])"
proof -
  let ?cs = "[Other [], If 2 [Name 2 ''x'', Return 3 (Some (Name 3 ''x''))], Return 4 None]"
  have h1: "\<not> truthy (current_function ComplexityVisitor_init)"
    by code_simp
  have h2: "truthy (current_function (enter_function ''f'' ComplexityVisitor_init))"
    by code_simp
  have h3: "FunctionDef 1 ''f'' ?cs \<in> set (walk unit_returns)"
    by code_simp
  have h4: "concat (map return_point (concat (map scope_nodes ?cs))) =
        [\<lparr>type = ''return'', line = 3\<rparr>, \<lparr>type = ''return'', line = 4\<rparr>]"
    by code_simp
  have h5: "all_decision_points (enter_function ''f'' ComplexityVisitor_init) = []"
    by code_simp
  note t1 = return_in_def_counted
    [of ComplexityVisitor_init 6 None unit_returns 1 "''f''" ?cs]
  note t2 = return_in_def_counted
    [of "enter_function ''f'' ComplexityVisitor_init" 4 None unit_returns 1 "''f''" ?cs]
  from t1 h1 have w1: "visit (Return 6 None) ComplexityVisitor_init =
      fold visit (opt_list None) ComplexityVisitor_init"
    by blast
  from t2 h2 have w2:
    "all_decision_points (visit (Return 4 None) (enter_function ''f'' ComplexityVisitor_init)) =
       all_decision_points (enter_function ''f'' ComplexityVisitor_init) @
       \<lparr>type = ''return'', line = 4\<rparr> #
       concat (map (points_recorded (current_function (enter_function ''f'' ComplexityVisitor_init)))
                 (opt_list None))"
    by blast
  have w3: "\<exists>m \<in> set (metrics (analyze_tree unit_returns)).
      name m = ''f'' \<and>
      early_returns (decision_points m) =
        [\<lparr>type = ''return'', line = 3\<rparr>, \<lparr>type = ''return'', line = 4\<rparr>]"
    using t1 h3 unfolding h4 by blast
  show ?thesis
    using w1 w2 w3 h1 h2 h3 h5 by (simp del: visit.simps)
qed

text \<open>The units \<^verbatim>\<open>async def f(x): return x\<close> and \<^verbatim>\<open>def f(x): return x\<close>.\<close>

definition unit_async_return :: ast where
  "unit_async_return =
     Other [AsyncFunctionDef 1 ''f'' [Other [Other []], Return 1 (Some (Name 1 ''x''))]]"

definition unit_def_return :: ast where
  "unit_def_return =
     Other [FunctionDef 1 ''f'' [Other [Other []], Return 1 (Some (Name 1 ''x''))]]"

text \<open>C9 against the code: the visitor has no method for \<^verbatim>\<open>async def\<close>, so the return
  statement of an asynchronous function is visited with \<^verbatim>\<open>current_function\<close> unset: no
  decision point is recorded, the total stays 1 and no metric is emitted, where the same
  function written with \<^verbatim>\<open>def\<close> records one \<open>return\<close> point against \<open>f\<close>.\<close>

theorem return_in_async_function_not_counted:
  "all_decision_points (analyze_tree unit_async_return) = [] \<and>
   total_complexity (analyze_tree unit_async_return) = 1 \<and>
   metrics (analyze_tree unit_async_return) = [] \<and>
   all_decision_points (analyze_tree unit_def_return) = [\<lparr>type = ''return'', line = 1\<rparr>] \<and>
   total_complexity (analyze_tree unit_def_return) = 2 \<and>
   metrics (analyze_tree unit_def_return) =
     [\<lparr>name = ''f'', complexity = 2, line_number = 1, type_of_unit = ''function'',
       nested_depth = 1, decision_points = [\<lparr>type = ''return'', line = 1\<rparr>]\<rparr>]"
  by code_simp

section \<open>CyclomaticComplexityAnalyzer.py: severity and hotspots\<close>

record CyclomaticComplexityAnalyzer =
  threshold_warning :: int
  threshold_critical :: int

text \<open>The constructor's defaults.\<close>

definition default_analyzer :: CyclomaticComplexityAnalyzer where
  "default_analyzer = \<lparr>threshold_warning = 10, threshold_critical = 15\<rparr>"

definition determine_severity :: "CyclomaticComplexityAnalyzer \<Rightarrow> int \<Rightarrow> string" where
  "determine_severity self c =
     (if c \<ge> threshold_critical self then ''critical''
      else if c \<ge> threshold_warning self then ''warning''
      else ''normal'')"

text \<open>A hotspot is the dictionary of the metric's fields and the severity.\<close>

record Hotspot = ComplexityMetric +
  severity :: string

definition hotspot_of :: "ComplexityMetric \<Rightarrow> string \<Rightarrow> Hotspot" where
  "hotspot_of metric sev =
     \<lparr>name = name metric, complexity = complexity metric, line_number = line_number metric,
      type_of_unit = type_of_unit metric, nested_depth = nested_depth metric,
      decision_points = decision_points metric, severity = sev\<rparr>"

text \<open>The loop of \<^verbatim>\<open>_identify_hotspots\<close>, then Python's stable \<^verbatim>\<open>sorted\<close> with the
  key \<^verbatim>\<open>(-complexity, line_number)\<close>, compared lexicographically.\<close>

fun collect_hotspots :: "CyclomaticComplexityAnalyzer \<Rightarrow> ComplexityMetric list \<Rightarrow> Hotspot list" where
  "collect_hotspots self [] = []"
| "collect_hotspots self (metric # rest) =
     (let sev = determine_severity self (complexity metric)
      in if sev \<noteq> ''normal'' then hotspot_of metric sev # collect_hotspots self rest
         else collect_hotspots self rest)"

definition identify_hotspots :: "CyclomaticComplexityAnalyzer \<Rightarrow> ComplexityMetric list \<Rightarrow> Hotspot list" where
  "identify_hotspots self ms =
     sort_key (\<lambda>x. (- complexity x, line_number x)) (collect_hotspots self ms)"

lemma collect_hotspots_filter:
  "collect_hotspots self ms =
     map (\<lambda>m. hotspot_of m (determine_severity self (complexity m)))
       (filter (\<lambda>m. determine_severity self (complexity m) \<noteq> ''normal'') ms)"
  by (induction ms) (simp_all add: Let_def)

lemma hotspot_key_order:
  "sorted_wrt (\<lambda>h1 h2. complexity h2 < complexity h1 \<or>
       complexity h1 = complexity h2 \<and> line_number h1 \<le> line_number h2)
     (sort_key (\<lambda>x. (- complexity x, line_number x)) (hs :: Hotspot list))"
proof -
  have "sorted (map (\<lambda>x. (- complexity x, line_number x))
          (sort_key (\<lambda>x. (- complexity x, line_number x)) hs))"
    by (rule sorted_sort_key)
  then have "sorted_wrt (\<lambda>h1 h2. (- complexity h1, line_number h1) \<le> (- complexity h2, line_number h2))
          (sort_key (\<lambda>x. (- complexity x, line_number x)) hs)"
    by (simp add: sorted_map)
  then show ?thesis
    by (rule sorted_wrt_mono_rel [rotated]) auto
qed

text \<open>C4: the severity is critical iff the complexity reaches the critical threshold,
  warning iff it reaches the warning threshold and stays below the critical one, and
  normal otherwise; the hotspots are exactly the metrics of non-normal severity (each with
  its severity), ordered by descending complexity and, at equal complexity, by ascending
  line number.\<close>

theorem severity_and_hotspot_order:
  "(determine_severity self c = ''critical'' \<longleftrightarrow> threshold_critical self \<le> c) \<and>
   (determine_severity self c = ''warning'' \<longleftrightarrow>
      threshold_warning self \<le> c \<and> c < threshold_critical self) \<and>
   (determine_severity self c = ''normal'' \<longleftrightarrow>
      c < threshold_critical self \<and> c < threshold_warning self) \<and>
   mset (identify_hotspots self ms) =
     mset (map (\<lambda>m. hotspot_of m (determine_severity self (complexity m)))
            (filter (\<lambda>m. determine_severity self (complexity m) \<noteq> ''normal'') ms)) \<and>
   sorted_wrt (\<lambda>h1 h2. complexity h2 < complexity h1 \<or>
       complexity h1 = complexity h2 \<and> line_number h1 \<le> line_number h2)
     (identify_hotspots self ms)"
proof -
  have "mset (identify_hotspots self ms) =
     mset (map (\<lambda>m. hotspot_of m (determine_severity self (complexity m)))
            (filter (\<lambda>m. determine_severity self (complexity m) \<noteq> ''normal'') ms))"
    by (simp add: identify_hotspots_def collect_hotspots_filter)
  moreover have "sorted_wrt (\<lambda>h1 h2. complexity h2 < complexity h1 \<or>
       complexity h1 = complexity h2 \<and> line_number h1 \<le> line_number h2)
     (identify_hotspots self ms)"
    unfolding identify_hotspots_def by (rule hotspot_key_order)
  moreover have "(determine_severity self c = ''critical'' \<longleftrightarrow> threshold_critical self \<le> c)"
    "(determine_severity self c = ''warning'' \<longleftrightarrow>
      threshold_warning self \<le> c \<and> c < threshold_critical self)"
    "(determine_severity self c = ''normal'' \<longleftrightarrow>
      c < threshold_critical self \<and> c < threshold_warning self)"
    by (auto simp: determine_severity_def)
  ultimately show ?thesis by blast
qed

definition metric_at :: "string \<Rightarrow> int \<Rightarrow> int \<Rightarrow> ComplexityMetric" where
  "metric_at n c l =
     \<lparr>name = n, complexity = c, line_number = l, type_of_unit = ''function'',
      nested_depth = 1, decision_points = []\<rparr>"

theorem severity_and_hotspot_order_witness:
  "map (\<lambda>h. (name h, complexity h, line_number h, severity h))
     (identify_hotspots default_analyzer
        [metric_at ''a'' 12 5, metric_at ''b'' 3 7, metric_at ''c'' 16 9, metric_at ''d'' 12 1]) =
     [(''c'', 16, 9, ''critical''), (''d'', 12, 1, ''warning''), (''a'', 12, 5, ''warning'')] \<and>
   sorted_wrt (\<lambda>h1 h2. complexity h2 < complexity h1 \<or>
       complexity h1 = complexity h2 \<and> line_number h1 \<le> line_number h2)
     (identify_hotspots default_analyzer
        [metric_at ''a'' 12 5, metric_at ''b'' 3 7, metric_at ''c'' 16 9, metric_at ''d'' 12 1])"
proof -
  have e: "map (\<lambda>h. (name h, complexity h, line_number h, severity h))
     (identify_hotspots default_analyzer
        [metric_at ''a'' 12 5, metric_at ''b'' 3 7, metric_at ''c'' 16 9, metric_at ''d'' 12 1]) =
     [(''c'', 16, 9, ''critical''), (''d'', 12, 1, ''warning''), (''a'', 12, 5, ''warning'')]"
    by code_simp
  show ?thesis
    using severity_and_hotspot_order [of default_analyzer 12
        "[metric_at ''a'' 12 5, metric_at ''b'' 3 7, metric_at ''c'' 16 9, metric_at ''d'' 12 1]"] e
    by blast
qed

section \<open>CyclomaticComplexityAnalyzer.py: clusters of decision points\<close>

record Cluster =
  start_line :: int
  end_line :: int
  size_of_cluster :: nat
  types :: "string list"

definition window_size :: int where
  "window_size = 5"

definition min_cluster_size :: nat where
  "min_cluster_size = 3"

text \<open>The dictionary built from a run; the source builds it only from a run of at least
  \<open>min_cluster_size\<close> points, so \<^verbatim>\<open>current_cluster[0]\<close> and \<^verbatim>\<open>current_cluster[-1]\<close>
  exist.\<close>

definition cluster_of :: "decision_point list \<Rightarrow> Cluster" where
  "cluster_of current_cluster =
     \<lparr>start_line = line (hd current_cluster), end_line = line (last current_cluster),
      size_of_cluster = length current_cluster, types = map type current_cluster\<rparr>"

definition close_cluster :: "decision_point list \<Rightarrow> Cluster list \<Rightarrow> Cluster list" where
  "close_cluster current_cluster clusters =
     (if length current_cluster \<ge> min_cluster_size
      then clusters @ [cluster_of current_cluster] else clusters)"

text \<open>The loop over the sorted points, with the loop state \<open>(clusters, current_cluster)\<close>.\<close>

fun scan_points ::
  "decision_point list \<Rightarrow> Cluster list \<Rightarrow> decision_point list \<Rightarrow> Cluster list \<times> decision_point list"
where
  "scan_points [] clusters current_cluster = (clusters, current_cluster)"
| "scan_points (point # rest) clusters current_cluster =
     (if current_cluster = [] \<or> line point - line (last current_cluster) \<le> window_size
      then scan_points rest clusters (current_cluster @ [point])
      else scan_points rest (close_cluster current_cluster clusters) [point])"

definition find_decision_clusters :: "decision_point list \<Rightarrow> Cluster list" where
  "find_decision_clusters points =
     (let sorted_points = sort_key line points;
          (clusters, current_cluster) = scan_points sorted_points [] []
      in close_cluster current_cluster clusters)"

subsection \<open>The runs of a sorted sequence\<close>

text \<open>The maximal runs of a sequence of points: a point joins the run before it when its
  line is at most \<open>window_size\<close> after the run's last line, and starts a new run
  otherwise.\<close>

fun runs_from :: "decision_point list \<Rightarrow> decision_point list \<Rightarrow> decision_point list list" where
  "runs_from cur [] = [cur]"
| "runs_from cur (p # ps) =
     (if line p - line (last cur) \<le> window_size then runs_from (cur @ [p]) ps
      else cur # runs_from [p] ps)"

fun runs :: "decision_point list \<Rightarrow> decision_point list list" where
  "runs [] = []"
| "runs (p # ps) = runs_from [p] ps"

definition emit :: "decision_point list list \<Rightarrow> Cluster list" where
  "emit rs = map cluster_of (filter (\<lambda>r. min_cluster_size \<le> length r) rs)"

lemma emit_simps:
  "emit [] = []"
  "emit (r # rs) = close_cluster r [] @ emit rs"
  "close_cluster r cl = cl @ close_cluster r []"
  by (simp_all add: emit_def close_cluster_def)

lemma scan_points_runs:
  "cur \<noteq> [] \<Longrightarrow>
   (case scan_points ps cl cur of (c, k) \<Rightarrow> close_cluster k c) = cl @ emit (runs_from cur ps)"
proof (induction ps arbitrary: cl cur)
  case Nil
  show ?case by (simp add: emit_def close_cluster_def)
next
  case (Cons p ps)
  show ?case
  proof (cases "line p - line (last cur) \<le> window_size")
    case True
    then show ?thesis using Cons.IH [of "cur @ [p]" cl] by simp
  next
    case False
    have "(case scan_points ps (close_cluster cur cl) [p] of (c, k) \<Rightarrow> close_cluster k c)
          = close_cluster cur cl @ emit (runs_from [p] ps)"
      by (rule Cons.IH) simp
    then show ?thesis
      using False Cons.prems by (simp add: emit_def close_cluster_def)
  qed
qed

lemma find_decision_clusters_runs:
  "find_decision_clusters points = emit (runs (sort_key line points))"
proof (cases "sort_key line points")
  case Nil
  then show ?thesis
    by (simp add: find_decision_clusters_def emit_def close_cluster_def min_cluster_size_def)
next
  case (Cons p ps)
  show ?thesis
    using scan_points_runs [of "[p]" ps "[]"]
    by (simp add: find_decision_clusters_def Cons split: prod.splits)
qed

lemma concat_runs_from: "concat (runs_from cur ps) = cur @ ps"
  by (induction ps arbitrary: cur) simp_all

lemma concat_runs: "concat (runs ps) = ps"
  by (cases ps) (simp_all add: concat_runs_from)

lemma runs_from_within:
  "cur \<noteq> [] \<Longrightarrow> successively (\<lambda>p q. line q - line p \<le> window_size) cur \<Longrightarrow>
   r \<in> set (runs_from cur ps) \<Longrightarrow>
   r \<noteq> [] \<and> successively (\<lambda>p q. line q - line p \<le> window_size) r"
proof (induction ps arbitrary: cur)
  case Nil
  then show ?case by simp
next
  case (Cons p ps)
  show ?case
  proof (cases "line p - line (last cur) \<le> window_size")
    case True
    have "successively (\<lambda>p q. line q - line p \<le> window_size) (cur @ [p])"
      using True Cons.prems(1,2) by (simp add: successively_append_iff)
    then show ?thesis
      using Cons.IH [of "cur @ [p]"] Cons.prems(3) True by simp
  next
    case False
    then show ?thesis
      using Cons.IH [of "[p]"] Cons.prems by auto
  qed
qed

lemma runs_from_nonempty: "runs_from cur ps \<noteq> []"
  by (induction ps arbitrary: cur) simp_all

lemma hd_runs_from: "cur \<noteq> [] \<Longrightarrow> hd (hd (runs_from cur ps)) = hd cur"
  by (induction ps arbitrary: cur) simp_all

lemma runs_from_gaps:
  "cur \<noteq> [] \<Longrightarrow>
   successively (\<lambda>r1 r2. window_size < line (hd r2) - line (last r1)) (runs_from cur ps)"
proof (induction ps arbitrary: cur)
  case Nil
  show ?case by simp
next
  case (Cons p ps)
  show ?case
  proof (cases "line p - line (last cur) \<le> window_size")
    case True
    then show ?thesis using Cons.IH [of "cur @ [p]"] by simp
  next
    case False
    then show ?thesis
      using Cons.IH [of "[p]"] runs_from_nonempty [of "[p]" ps] hd_runs_from [of "[p]" ps]
      by (simp add: successively_Cons)
  qed
qed


lemma runs_from_all_nonempty: "cur \<noteq> [] \<Longrightarrow> r \<in> set (runs_from cur ps) \<Longrightarrow> r \<noteq> []"
  by (induction ps arbitrary: cur) (auto split: if_splits)

lemma runs_from_separated:
  "sorted (map line (cur @ ps)) \<Longrightarrow> cur \<noteq> [] \<Longrightarrow>
   sorted_wrt (\<lambda>r1 r2. line (last r1) < line (hd r2)) (runs_from cur ps)"
proof (induction ps arbitrary: cur)
  case Nil
  show ?case by simp
next
  case (Cons p ps)
  show ?case
  proof (cases "line p - line (last cur) \<le> window_size")
    case True
    then show ?thesis using Cons.IH [of "cur @ [p]"] Cons.prems by simp
  next
    case False
    have sp: "sorted (map line (p # ps))"
      using Cons.prems(1) by (simp add: sorted_append)
    have "line (last cur) < line (hd r)" if r: "r \<in> set (runs_from [p] ps)" for r
    proof -
      have "r \<noteq> []" using runs_from_all_nonempty [OF _ r] by simp
      then have "hd r \<in> set r" by simp
      then have "hd r \<in> set (concat (runs_from [p] ps))" using r by auto
      then have "hd r \<in> set (p # ps)" by (simp add: concat_runs_from)
      then have "line p \<le> line (hd r)" using sp by auto
      then show ?thesis using False by (simp add: window_size_def)
    qed
    moreover have "sorted_wrt (\<lambda>r1 r2. line (last r1) < line (hd r2)) (runs_from [p] ps)"
      using Cons.IH [of "[p]"] sp by simp
    ultimately show ?thesis using False by simp
  qed
qed

lemma runs_separated:
  "sorted (map line ps) \<Longrightarrow> sorted_wrt (\<lambda>r1 r2. line (last r1) < line (hd r2)) (runs ps)"
proof (cases ps)
  case Nil
  then show ?thesis by simp
next
  case (Cons p qs)
  assume "sorted (map line ps)"
  then have "sorted (map line ([p] @ qs))" using Cons by simp
  then have "sorted_wrt (\<lambda>r1 r2. line (last r1) < line (hd r2)) (runs_from [p] qs)"
    by (rule runs_from_separated) simp
  then show ?thesis using Cons by simp
qed

lemma runs_within:
  "r \<in> set (runs ps) \<Longrightarrow> r \<noteq> [] \<and> successively (\<lambda>p q. line q - line p \<le> window_size) r"
  by (cases ps) (auto dest: runs_from_within [rotated 2])

lemma runs_gaps:
  "successively (\<lambda>r1 r2. window_size < line (hd r2) - line (last r1)) (runs ps)"
  by (cases ps) (simp_all add: runs_from_gaps)

lemma sorted_part_of_concat:
  "sorted (map line (concat rs)) \<Longrightarrow> r \<in> set rs \<Longrightarrow> sorted (map line r)"
  by (induction rs) (auto simp: sorted_append)

lemma sorted_hd_le_last:
  "sorted (map line r) \<Longrightarrow> r \<noteq> [] \<Longrightarrow> line (hd r) \<le> line (last r)"
  by (cases r) (auto simp: last_in_set)

text \<open>C5: the clusters are the runs of at least three points among the maximal runs of the
  points sorted by line. The runs partition the sorted points; inside a run consecutive
  lines differ by at most 5; a point more than 5 lines after the run before it starts a
  new run; every cluster has size at least 3, and of two clusters the earlier one ends
  before the later one starts.\<close>

theorem cluster_validity:
  "find_decision_clusters points =
     map cluster_of (filter (\<lambda>r. 3 \<le> length r) (runs (sort_key line points))) \<and>
   concat (runs (sort_key line points)) = sort_key line points \<and>
   (\<forall>r \<in> set (runs (sort_key line points)).
      r \<noteq> [] \<and> successively (\<lambda>p q. line q - line p \<le> 5) r) \<and>
   successively (\<lambda>r1 r2. 5 < line (hd r2) - line (last r1)) (runs (sort_key line points)) \<and>
   (\<forall>c \<in> set (find_decision_clusters points).
      3 \<le> size_of_cluster c \<and> start_line c \<le> end_line c) \<and>
   sorted_wrt (\<lambda>c1 c2. end_line c1 < start_line c2) (find_decision_clusters points)"
proof -
  let ?xs = "sort_key line points"
  have srt: "sorted (map line ?xs)" by (rule sorted_sort_key)
  have a: "find_decision_clusters points = map cluster_of (filter (\<lambda>r. 3 \<le> length r) (runs ?xs))"
    by (simp add: find_decision_clusters_runs emit_def min_cluster_size_def)
  have b: "concat (runs ?xs) = ?xs" by (rule concat_runs)
  have c: "\<forall>r \<in> set (runs ?xs). r \<noteq> [] \<and> successively (\<lambda>p q. line q - line p \<le> 5) r"
    using runs_within [of _ ?xs] by (simp add: window_size_def)
  have d: "successively (\<lambda>r1 r2. 5 < line (hd r2) - line (last r1)) (runs ?xs)"
    using runs_gaps [of ?xs] by (simp add: window_size_def)
  have e: "\<forall>c \<in> set (find_decision_clusters points).
      3 \<le> size_of_cluster c \<and> start_line c \<le> end_line c"
  proof
    fix c assume "c \<in> set (find_decision_clusters points)"
    then obtain r where r: "r \<in> set (runs ?xs)" "3 \<le> length r" "c = cluster_of r"
      unfolding a by auto
    have "sorted (map line r)"
      using sorted_part_of_concat [of "runs ?xs" r] srt r(1) by (simp add: b)
    moreover have "r \<noteq> []" using r(2) by auto
    ultimately have "line (hd r) \<le> line (last r)" by (rule sorted_hd_le_last)
    then show "3 \<le> size_of_cluster c \<and> start_line c \<le> end_line c"
      using r by (simp add: cluster_of_def)
  qed
  have "sorted_wrt (\<lambda>r1 r2. line (last r1) < line (hd r2)) (filter (\<lambda>r. 3 \<le> length r) (runs ?xs))"
    by (rule sorted_wrt_filter) (rule runs_separated [OF srt])
  then have f: "sorted_wrt (\<lambda>c1 c2. end_line c1 < start_line c2) (find_decision_clusters points)"
    unfolding a by (simp add: sorted_wrt_map cluster_of_def)
  show ?thesis using a b c d e f by blast
qed

definition sample_points :: "decision_point list" where
  "sample_points =
     [\<lparr>type = ''loop'', line = 31\<rparr>, \<lparr>type = ''if'', line = 1\<rparr>, \<lparr>type = ''if'', line = 3\<rparr>,
      \<lparr>type = ''except'', line = 20\<rparr>, \<lparr>type = ''return'', line = 5\<rparr>,
      \<lparr>type = ''if'', line = 30\<rparr>, \<lparr>type = ''boolean_op'', line = 33\<rparr>,
      \<lparr>type = ''if'', line = 60\<rparr>]"

theorem cluster_validity_witness:
  "find_decision_clusters sample_points =
     [\<lparr>start_line = 1, end_line = 5, size_of_cluster = 3, types = [''if'', ''if'', ''return'']\<rparr>,
      \<lparr>start_line = 30, end_line = 33, size_of_cluster = 3,
       types = [''if'', ''loop'', ''boolean_op'']\<rparr>] \<and>
   map (map line) (runs (sort_key line sample_points)) = [[1, 3, 5], [20], [30, 31, 33], [60]] \<and>
   sorted_wrt (\<lambda>c1 c2. end_line c1 < start_line c2) (find_decision_clusters sample_points)"
proof -
  have e: "find_decision_clusters sample_points =
     [\<lparr>start_line = 1, end_line = 5, size_of_cluster = 3, types = [''if'', ''if'', ''return'']\<rparr>,
      \<lparr>start_line = 30, end_line = 33, size_of_cluster = 3,
       types = [''if'', ''loop'', ''boolean_op'']\<rparr>]"
    by code_simp
  have r: "map (map line) (runs (sort_key line sample_points)) =
      [[1, 3, 5], [20], [30, 31, 33], [60]]"
    by code_simp
  show ?thesis
    using cluster_validity [of sample_points] e r by blast
qed

section \<open>CyclomaticComplexityAnalyzer.py: the report\<close>

text \<open>Exceptions are values. \<^verbatim>\<open>ast.parse\<close> belongs to the interpreter, not to the repository:
  it is a parameter \<open>parse\<close> that returns the tree or the exception it raises, a
  \<^verbatim>\<open>SyntaxError\<close> for text that is not a program. Every exception modelled here is a
  subclass of \<^verbatim>\<open>Exception\<close>. Python's floats are modelled as exact rationals; exhaustion of
  the interpreter's recursion limit on very deep trees is not modelled.\<close>

datatype exn = SyntaxError | ZeroDivisionError | IndexError | OtherException

datatype 'a result = ErrorResult string | Report 'a

text \<open>Python's \<^verbatim>\<open>/\<close> on integers.\<close>

definition true_div :: "int \<Rightarrow> int \<Rightarrow> exn + rat" where
  "true_div a b = (if b = 0 then Inl ZeroDivisionError else Inr (of_int a / of_int b))"

definition calculate_average :: "int list \<Rightarrow> exn + rat" where
  "calculate_average values =
     (if values \<noteq> [] then true_div (sum_list values) (int (length values)) else Inr 0)"

record OverallMetrics =
  overall_complexity :: int
  average_function_complexity :: rat
  max_complexity :: int
  total_decision_points :: nat
  unique_decision_types :: nat

record Recommendation =
  type_of_recommendation :: string
  message :: string
  suggestion :: string
  location :: "string option"

text \<open>\<^verbatim>\<open>str\<close> of an integer, for the f-string of the location.\<close>

function str_nat :: "nat \<Rightarrow> string" where
  "str_nat n =
     (if n < 10 then [char_of (48 + n)] else str_nat (n div 10) @ [char_of (48 + n mod 10)])"
  by pat_completeness auto
termination
  by (relation "measure id") auto

declare str_nat.simps [simp del]

definition str_int :: "int \<Rightarrow> string" where
  "str_int i = (if i < 0 then ''-'' @ str_nat (nat (- i)) else str_nat (nat i))"

definition generate_hotspot_recommendation :: "Hotspot \<Rightarrow> exn + Recommendation" where
  "generate_hotspot_recommendation hotspot =
     (let base_message = ''High complexity in '' @ type_of_unit hotspot @ '' '' @ [CHR 0x27] @
                         name hotspot @ [CHR 0x27];
          decision_types = map type (decision_points hotspot);
          sugg =
            (if length (remdups decision_types) = 1 then
               (case decision_types of
                  [] \<Rightarrow> Inl IndexError
                | d_type # _ \<Rightarrow>
                    Inr (if d_type = ''if'' then ''Consider using strategy pattern or lookup tables''
                         else if d_type = ''loop''
                           then ''Consider breaking loop body into smaller functions''
                         else ''Consider breaking down into smaller functions''))
             else Inr (''Break down the code into smaller, focused functions '' @
                       ''handling specific cases''))
      in case sugg of
           Inl e \<Rightarrow> Inl e
         | Inr s \<Rightarrow>
             Inr \<lparr>type_of_recommendation = ''critical'', message = base_message, suggestion = s,
                  location = Some (''Line '' @ str_int (line_number hotspot))\<rparr>)"

fun hotspot_recommendations :: "Hotspot list \<Rightarrow> exn + Recommendation list" where
  "hotspot_recommendations [] = Inr []"
| "hotspot_recommendations (hotspot # rest) =
     (if severity hotspot = ''critical'' then
        (case generate_hotspot_recommendation hotspot of
           Inl e \<Rightarrow> Inl e
         | Inr r \<Rightarrow>
             (case hotspot_recommendations rest of Inl e \<Rightarrow> Inl e | Inr rs \<Rightarrow> Inr (r # rs)))
      else hotspot_recommendations rest)"

definition generate_recommendations ::
  "CyclomaticComplexityAnalyzer \<Rightarrow> OverallMetrics \<Rightarrow> Hotspot list \<Rightarrow> exn + Recommendation list" where
  "generate_recommendations self ms hotspots =
     (let r1 = (if overall_complexity ms > threshold_critical self * 2
                then [\<lparr>type_of_recommendation = ''critical'',
                       message = ''Overall code complexity is very high'',
                       suggestion = ''Consider breaking down the code into smaller modules'',
                       location = None\<rparr>]
                else []);
          r2 = (if average_function_complexity ms > of_int (threshold_warning self)
                then [\<lparr>type_of_recommendation = ''warning'',
                       message = ''Average function complexity is high'',
                       suggestion = ''Review functions for potential simplification'',
                       location = None\<rparr>]
                else [])
      in case hotspot_recommendations hotspots of
           Inl e \<Rightarrow> Inl e
         | Inr r3 \<Rightarrow> Inr (r1 @ r2 @ r3))"

record described_point = decision_point +
  description :: string

definition type_descriptions :: "(string \<times> string) list" where
  "type_descriptions =
     [(''if'', ''Conditional branch''), (''loop'', ''Loop construct''),
      (''except'', ''Exception handler''), (''boolean_op'', ''Boolean operation''),
      (''return'', ''Early return statement'')]"

definition get_decision_description :: "decision_point \<Rightarrow> string" where
  "get_decision_description decision =
     (case map_of type_descriptions (type decision) of
        Some d \<Rightarrow> d | None \<Rightarrow> ''Unknown decision point'')"

definition format_decision_points :: "decision_point list \<Rightarrow> described_point list" where
  "format_decision_points ps =
     map (\<lambda>d. \<lparr>type = type d, line = line d, description = get_decision_description d\<rparr>) ps"

record Detail =
  detail_name :: string
  detail_type :: string
  detail_complexity :: int
  detail_line_number :: int
  detail_nested_depth :: int
  detail_severity :: string
  detail_decision_points :: "described_point list"

definition generate_detailed_report ::
  "CyclomaticComplexityAnalyzer \<Rightarrow> ComplexityMetric list \<Rightarrow> Detail list" where
  "generate_detailed_report self ms =
     map (\<lambda>m. \<lparr>detail_name = name m, detail_type = type_of_unit m,
               detail_complexity = complexity m, detail_line_number = line_number m,
               detail_nested_depth = nested_depth m,
               detail_severity = determine_severity self (complexity m),
               detail_decision_points = format_decision_points (decision_points m)\<rparr>) ms"

text \<open>A dictionary that keeps insertion order: an association list in which a key that is
  present is updated in place and a new key is appended.\<close>

fun dict_set :: "'k \<Rightarrow> 'v \<Rightarrow> ('k \<times> 'v) list \<Rightarrow> ('k \<times> 'v) list" where
  "dict_set k v [] = [(k, v)]"
| "dict_set k v ((k', v') # d) = (if k' = k then (k, v) # d else (k', v') # dict_set k v d)"

definition dict_get :: "('k \<times> 'v) list \<Rightarrow> 'k \<Rightarrow> 'v \<Rightarrow> 'v" where
  "dict_get d k dflt = (case map_of d k of Some v \<Rightarrow> v | None \<Rightarrow> dflt)"

definition count_types :: "decision_point list \<Rightarrow> (string \<times> nat) list" where
  "count_types ps =
     fold (\<lambda>point type_counts.
             dict_set (type point) (dict_get type_counts (type point) 0 + 1) type_counts) ps []"

record Distribution =
  count_of_type :: nat
  percentage :: rat

fun distribution_items :: "nat \<Rightarrow> (string \<times> nat) list \<Rightarrow> exn + (string \<times> Distribution) list" where
  "distribution_items total_n [] = Inr []"
| "distribution_items total_n ((t, c) # items) =
     (case true_div (int c) (int total_n) of
        Inl e \<Rightarrow> Inl e
      | Inr q \<Rightarrow>
          (case distribution_items total_n items of
             Inl e \<Rightarrow> Inl e
           | Inr ds \<Rightarrow> Inr ((t, \<lparr>count_of_type = c, percentage = q * 100\<rparr>) # ds)))"

record Summary =
  total_points :: nat
  distributions :: "(string \<times> Distribution) list"
  clusters :: "Cluster list"

definition summarize_decision_points :: "decision_point list \<Rightarrow> exn + Summary" where
  "summarize_decision_points ps =
     (let type_counts = count_types ps;
          total_n = length ps
      in case distribution_items total_n type_counts of
           Inl e \<Rightarrow> Inl e
         | Inr ds \<Rightarrow>
             Inr \<lparr>total_points = total_n, distributions = ds,
                  clusters = find_decision_clusters ps\<rparr>)"

record Analysis =
  metrics_of_analysis :: OverallMetrics
  hotspots :: "Hotspot list"
  recommendations :: "Recommendation list"
  details :: "Detail list"
  decision_point_summary :: Summary

text \<open>The body of the \<^verbatim>\<open>try\<close> block of \<^verbatim>\<open>analyze_code\<close>, after parsing.\<close>

definition analyze_visited :: "CyclomaticComplexityAnalyzer \<Rightarrow> ComplexityVisitor \<Rightarrow> exn + Analysis" where
  "analyze_visited self visitor =
     (case calculate_average
             (map complexity (filter (\<lambda>m. type_of_unit m = ''function'') (metrics visitor))) of
        Inl e \<Rightarrow> Inl e
      | Inr avg \<Rightarrow>
          (let ms = \<lparr>overall_complexity = total_complexity visitor,
                     average_function_complexity = avg,
                     max_complexity =
                       (if metrics visitor \<noteq> [] then Max (set (map complexity (metrics visitor)))
                        else 0),
                     total_decision_points = length (all_decision_points visitor),
                     unique_decision_types =
                       length (remdups (map type (all_decision_points visitor)))\<rparr>;
               hs = identify_hotspots self (metrics visitor)
           in case generate_recommendations self ms hs of
                Inl e \<Rightarrow> Inl e
              | Inr recs \<Rightarrow>
                  (case summarize_decision_points (all_decision_points visitor) of
                     Inl e \<Rightarrow> Inl e
                   | Inr summary \<Rightarrow>
                       Inr \<lparr>metrics_of_analysis = ms, hotspots = hs, recommendations = recs,
                            details = generate_detailed_report self (metrics visitor),
                            decision_point_summary = summary\<rparr>)))"

definition analyze_code ::
  "CyclomaticComplexityAnalyzer \<Rightarrow> (string \<Rightarrow> exn + ast) \<Rightarrow> string \<Rightarrow> Analysis result" where
  "analyze_code self parse code =
     (case (case parse code of
              Inl e \<Rightarrow> Inl e
            | Inr tree \<Rightarrow> analyze_visited self (visit tree ComplexityVisitor_init)) of
        Inr analysis \<Rightarrow> Report analysis
      | Inl SyntaxError \<Rightarrow> ErrorResult ''Invalid Python syntax''
      | Inl _ \<Rightarrow> ErrorResult ''Analysis failed'')"

subsection \<open>The report is always produced\<close>

lemma calculate_average_Inr: "\<exists>q. calculate_average vs = Inr q"
  by (simp add: calculate_average_def true_div_def)

lemma remdups_single_nonempty: "length (remdups ts) = 1 \<Longrightarrow> ts \<noteq> []"
  by auto

lemma generate_hotspot_recommendation_Inr: "\<exists>r. generate_hotspot_recommendation h = Inr r"
proof (cases "map type (decision_points h)")
  case Nil
  then show ?thesis by (simp add: generate_hotspot_recommendation_def)
next
  case (Cons d ds)
  then show ?thesis by (simp add: generate_hotspot_recommendation_def Let_def)
qed

lemma hotspot_recommendations_Inr: "\<exists>rs. hotspot_recommendations hs = Inr rs"
proof (induction hs)
  case Nil
  show ?case by simp
next
  case (Cons h hs)
  obtain r where "generate_hotspot_recommendation h = Inr r"
    using generate_hotspot_recommendation_Inr by blast
  with Cons show ?case by auto
qed

lemma generate_recommendations_Inr: "\<exists>rs. generate_recommendations self ms hs = Inr rs"
proof -
  obtain r3 where "hotspot_recommendations hs = Inr r3"
    using hotspot_recommendations_Inr by blast
  then show ?thesis by (simp add: generate_recommendations_def Let_def)
qed

lemma distribution_items_Inr:
  "total_n \<noteq> 0 \<Longrightarrow> \<exists>ds. distribution_items total_n items = Inr ds"
  by (induction items) (auto simp: true_div_def)

lemma summarize_decision_points_Inr:
  "\<exists>s. summarize_decision_points ps = Inr s \<and> total_points s = length ps \<and>
       clusters s = find_decision_clusters ps"
proof (cases ps)
  case Nil
  then show ?thesis by (simp add: summarize_decision_points_def count_types_def)
next
  case (Cons p qs)
  then obtain ds where "distribution_items (length ps) (count_types ps) = Inr ds"
    using distribution_items_Inr [of "length ps" "count_types ps"] by auto
  then show ?thesis by (simp add: summarize_decision_points_def Let_def)
qed

lemma summarize_no_points:
  "summarize_decision_points [] = Inr \<lparr>total_points = 0, distributions = [], clusters = []\<rparr>"
  by (simp add: summarize_decision_points_def count_types_def find_decision_clusters_def
        close_cluster_def min_cluster_size_def)

lemma analyze_visited_Inr:
  "\<exists>a. analyze_visited self v = Inr a \<and>
       hotspots a = identify_hotspots self (metrics v) \<and>
       details a = generate_detailed_report self (metrics v) \<and>
       summarize_decision_points (all_decision_points v) = Inr (decision_point_summary a) \<and>
       calculate_average (map complexity (filter (\<lambda>m. type_of_unit m = ''function'') (metrics v)))
         = Inr (average_function_complexity (metrics_of_analysis a)) \<and>
       max_complexity (metrics_of_analysis a) =
         (if metrics v \<noteq> [] then Max (set (map complexity (metrics v))) else 0) \<and>
       overall_complexity (metrics_of_analysis a) = total_complexity v \<and>
       total_decision_points (metrics_of_analysis a) = length (all_decision_points v)"
proof -
  obtain avg where avg: "calculate_average
      (map complexity (filter (\<lambda>m. type_of_unit m = ''function'') (metrics v))) = Inr avg"
    using calculate_average_Inr by blast
  let ?ms = "\<lparr>overall_complexity = total_complexity v,
              average_function_complexity = avg,
              max_complexity =
                (if metrics v \<noteq> [] then Max (set (map complexity (metrics v))) else 0),
              total_decision_points = length (all_decision_points v),
              unique_decision_types = length (remdups (map type (all_decision_points v)))\<rparr>"
  obtain recs where recs:
    "generate_recommendations self ?ms (identify_hotspots self (metrics v)) = Inr recs"
    using generate_recommendations_Inr by blast
  obtain sm where sm: "summarize_decision_points (all_decision_points v) = Inr sm"
    using summarize_decision_points_Inr by blast
  show ?thesis
    by (simp add: analyze_visited_def Let_def avg recs sm)
qed

lemma analyze_code_parsed:
  "parse code = Inr tree \<Longrightarrow>
   \<exists>a. analyze_code self parse code = Report a \<and>
       analyze_visited self (analyze_tree tree) = Inr a"
  using analyze_visited_Inr [of self "analyze_tree tree"]
  by (auto simp: analyze_code_def analyze_tree_def)

lemma emitted_no_functions:
  "\<forall>x \<in> set (walk t). \<not> is_FunctionDef x \<Longrightarrow> emitted d t = []"
proof (induction d t rule: emitted.induct)
  case (1 d t)
  have nf: "\<not> is_FunctionDef t" using "1.prems" walk_self by blast
  have "emitted (depth_below d t) c = []" if c: "c \<in> set (iter_child_nodes t)" for c
    using "1.IH" [OF c] "1.prems" walk_child [OF c] by blast
  then show ?case
    by (subst emitted.simps) (simp add: plain_context(3) [OF nf])
qed

definition parse_to :: "ast \<Rightarrow> string \<Rightarrow> exn + ast" where
  "parse_to tree code = Inr tree"

definition parse_raises :: "exn \<Rightarrow> string \<Rightarrow> exn + ast" where
  "parse_raises e code = Inl e"

text \<open>A unit without function definitions but with a module-level conditional:
  \<^verbatim>\<open>if x: pass\<close>.\<close>

definition unit_module_if :: ast where
  "unit_module_if = Other [If 1 [Name 1 ''x'', Other []]]"

text \<open>C10, as stated, fails: a unit without function definitions still records its
  module-level decision points, so the summary does not have \<open>total_points = 0\<close> and an
  empty distribution.\<close>

theorem report_without_functions_counterexample:
  "filter is_FunctionDef (walk unit_module_if) = [] \<and>
   analyze_code default_analyzer (parse_to unit_module_if) ''if x: pass'' =
     Report \<lparr>metrics_of_analysis =
               \<lparr>overall_complexity = 2, average_function_complexity = 0, max_complexity = 0,
                total_decision_points = 1, unique_decision_types = 1\<rparr>,
             hotspots = [], recommendations = [], details = [],
             decision_point_summary =
               \<lparr>total_points = 1,
                distributions = [(''if'', \<lparr>count_of_type = 1, percentage = 100\<rparr>)],
                clusters = []\<rparr>\<rparr>"
  by code_simp

text \<open>C10 (amended): for every parseable input whose tree has no function definition the
  analyzer returns a full report: the average function complexity is 0, the maximum
  complexity is 0, there is no hotspot and no detail entry, and the summary is produced with
  \<open>total_points\<close> the number of decision points recorded (conditionals, loops, handlers and
  boolean operators at module level are recorded); when none is recorded, \<open>total_points\<close>
  is 0 and the distributions and clusters are empty. No division by zero occurs.\<close>

theorem report_without_functions:
  assumes "parse code = Inr tree"
    and "\<forall>x \<in> set (walk tree). \<not> is_FunctionDef x"
  shows "\<exists>a. analyze_code self parse code = Report a \<and>
           average_function_complexity (metrics_of_analysis a) = 0 \<and>
           max_complexity (metrics_of_analysis a) = 0 \<and>
           hotspots a = [] \<and> details a = [] \<and>
           total_points (decision_point_summary a) =
             length (all_decision_points (analyze_tree tree)) \<and>
           (all_decision_points (analyze_tree tree) = [] \<longrightarrow>
              total_points (decision_point_summary a) = 0 \<and>
              distributions (decision_point_summary a) = [] \<and>
              clusters (decision_point_summary a) = [])"
proof -
  have m: "metrics (analyze_tree tree) = []"
    using assms(2) by (simp add: analyze_tree_effect emitted_no_functions)
  obtain a where a: "analyze_code self parse code = Report a"
      "analyze_visited self (analyze_tree tree) = Inr a"
    using analyze_code_parsed [of parse code tree self, OF assms(1)] by blast
  from analyze_visited_Inr [of self "analyze_tree tree"] a(2)
  have f: "hotspots a = identify_hotspots self (metrics (analyze_tree tree))"
    "details a = generate_detailed_report self (metrics (analyze_tree tree))"
    "summarize_decision_points (all_decision_points (analyze_tree tree))
       = Inr (decision_point_summary a)"
    "calculate_average (map complexity
        (filter (\<lambda>m. type_of_unit m = ''function'') (metrics (analyze_tree tree))))
       = Inr (average_function_complexity (metrics_of_analysis a))"
    "max_complexity (metrics_of_analysis a) =
       (if metrics (analyze_tree tree) \<noteq> []
        then Max (set (map complexity (metrics (analyze_tree tree)))) else 0)"
    by auto
  have avg: "average_function_complexity (metrics_of_analysis a) = 0"
    using f(4) by (simp add: m calculate_average_def)
  have mx: "max_complexity (metrics_of_analysis a) = 0"
    using f(5) by (simp add: m)
  have hs: "hotspots a = []" "details a = []"
    using f(1,2) by (simp_all add: m identify_hotspots_def generate_detailed_report_def)
  have tp: "total_points (decision_point_summary a) =
      length (all_decision_points (analyze_tree tree))"
    using summarize_decision_points_Inr [of "all_decision_points (analyze_tree tree)"] f(3)
    by auto
  have em: "decision_point_summary a = \<lparr>total_points = 0, distributions = [], clusters = []\<rparr>"
    if "all_decision_points (analyze_tree tree) = []"
    using f(3) that by (simp add: summarize_no_points)
  show ?thesis
    using a(1) avg mx hs tp em by auto
qed

definition unit_assignment :: ast where
  "unit_assignment = Other [Assign 1 [Name 1 ''x''] (Constant 1 (CInt 1))]"

theorem report_without_functions_witness:
  "parse_to unit_assignment ''x = 1'' = Inr unit_assignment \<and>
   filter is_FunctionDef (walk unit_assignment) = [] \<and>
   all_decision_points (analyze_tree unit_assignment) = [] \<and>
   (\<exists>a. analyze_code default_analyzer (parse_to unit_assignment) ''x = 1'' = Report a \<and>
        average_function_complexity (metrics_of_analysis a) = 0 \<and>
        max_complexity (metrics_of_analysis a) = 0 \<and>
        total_points (decision_point_summary a) = 0 \<and>
        distributions (decision_point_summary a) = [])"
proof -
  have h1: "parse_to unit_assignment ''x = 1'' = Inr unit_assignment"
    by (simp add: parse_to_def)
  have h2: "\<forall>x \<in> set (walk unit_assignment). \<not> is_FunctionDef x"
    by code_simp
  have h3: "all_decision_points (analyze_tree unit_assignment) = []"
    by code_simp
  have h4: "filter is_FunctionDef (walk unit_assignment) = []"
    by code_simp
  show ?thesis
    using report_without_functions
      [of "parse_to unit_assignment" "''x = 1''" unit_assignment default_analyzer, OF h1 h2]
      h1 h3 h4
    by auto
qed

section \<open>CodeSafetyAnalyzer.py\<close>

text \<open>The node tests of the visitor, as the interpreter versions 3.8 to 3.13 decide them
  on a parsed tree: every literal is a \<^verbatim>\<open>Constant\<close> node, and \<^verbatim>\<open>isinstance(n, ast.Str)\<close>
  holds exactly for a \<^verbatim>\<open>Constant\<close> whose value is a string.\<close>

fun is_Str :: "ast \<Rightarrow> bool" where
  "is_Str (Constant l (CStr s)) = True"
| "is_Str t = False"

fun is_Constant :: "ast \<Rightarrow> bool" where
  "is_Constant (Constant l c) = True"
| "is_Constant t = False"

text \<open>\<^verbatim>\<open>str.lower\<close> on the ASCII letters; identifiers and literals are byte strings here.\<close>

definition lower_char :: "char \<Rightarrow> char" where
  "lower_char c =
     (let n = (of_char c :: nat) in if 65 \<le> n \<and> n \<le> 90 then char_of (n + 32) else c)"

definition lower :: "string \<Rightarrow> string" where
  "lower s = map lower_char s"

record CodePattern =
  pattern_name :: string
  pattern_description :: string
  risk_level :: string
  remediation :: string
  category :: string

definition hardcoded_credentials :: CodePattern where
  "hardcoded_credentials =
     \<lparr>pattern_name = ''Hardcoded Credentials'',
      pattern_description = ''Credentials or secrets directly embedded in code'',
      risk_level = ''high'',
      remediation = ''Use environment variables or secure secret management'',
      category = ''security''\<rparr>"

definition unsafe_deserialization :: CodePattern where
  "unsafe_deserialization =
     \<lparr>pattern_name = ''Unsafe Deserialization'',
      pattern_description = ''Direct deserialization of untrusted data'',
      risk_level = ''high'',
      remediation = ''Implement proper input validation and sanitization'',
      category = ''security''\<rparr>"

definition sql_concatenation :: CodePattern where
  "sql_concatenation =
     \<lparr>pattern_name = ''SQL String Concatenation'',
      pattern_description = ''Direct string concatenation in SQL queries'',
      risk_level = ''high'',
      remediation = ''Use parameterized queries or ORM'',
      category = ''security''\<rparr>"

definition file_path_manipulation :: CodePattern where
  "file_path_manipulation =
     \<lparr>pattern_name = ''Unsafe File Path Handling'',
      pattern_description = ''Insufficient validation of file paths'',
      risk_level = ''medium'',
      remediation = ''Use path sanitization and access control'',
      category = ''security''\<rparr>"

definition debug_info :: CodePattern where
  "debug_info =
     \<lparr>pattern_name = ''Debug Information'',
      pattern_description = ''Debug/trace information in production code'',
      risk_level = ''low'',
      remediation = ''Remove or disable debug code in production'',
      category = ''best_practice''\<rparr>"

definition error_suppression :: CodePattern where
  "error_suppression =
     \<lparr>pattern_name = ''Broad Error Suppression'',
      pattern_description = ''Catching all exceptions without proper handling'',
      risk_level = ''medium'',
      remediation = ''Catch specific exceptions and handle appropriately'',
      category = ''reliability''\<rparr>"

text \<open>\<^verbatim>\<open>_initialize_patterns\<close>: the dictionary of the six patterns. The analyzer reads it
  only at these six literal keys.\<close>

definition initialize_patterns :: "(string \<times> CodePattern) list" where
  "initialize_patterns =
     [(''hardcoded_credentials'', hardcoded_credentials),
      (''unsafe_deserialization'', unsafe_deserialization),
      (''sql_concatenation'', sql_concatenation),
      (''file_path_manipulation'', file_path_manipulation),
      (''debug_info'', debug_info),
      (''error_suppression'', error_suppression)]"

record CodeVisitor =
  has_hardcoded_credentials :: bool
  has_unsafe_deserialization :: bool
  has_sql_concatenation :: bool
  has_unsafe_file_ops :: bool
  has_debug_info :: bool
  has_broad_exception_handling :: bool
  credential_locations :: "int list"
  deserialization_locations :: "int list"
  sql_locations :: "int list"
  file_op_locations :: "int list"
  debug_locations :: "int list"
  exception_locations :: "int list"

definition CodeVisitor_init :: CodeVisitor where
  "CodeVisitor_init =
     \<lparr>has_hardcoded_credentials = False, has_unsafe_deserialization = False,
      has_sql_concatenation = False, has_unsafe_file_ops = False, has_debug_info = False,
      has_broad_exception_handling = False,
      credential_locations = [], deserialization_locations = [], sql_locations = [],
      file_op_locations = [], debug_locations = [], exception_locations = []\<rparr>"

text \<open>The part of each \<^verbatim>\<open>visit_*\<close> method before its \<^verbatim>\<open>generic_visit\<close>.\<close>

definition is_credential_name :: "string \<Rightarrow> bool" where
  "is_credential_name ident =
     list_ex (\<lambda>cred. sublist cred (lower ident)) [''password'', ''secret'', ''key'', ''token'']"

definition check_target :: "int \<Rightarrow> ast \<Rightarrow> ast \<Rightarrow> CodeVisitor \<Rightarrow> CodeVisitor" where
  "check_target lineno val target s =
     (case target of
        Name _ ident \<Rightarrow>
          if is_credential_name ident then
            if is_Str val \<or> is_Constant val
            then s\<lparr>has_hardcoded_credentials := True,
                   credential_locations := credential_locations s @ [lineno]\<rparr>
            else s
          else s
      | _ \<Rightarrow> s)"

definition visit_Assign :: "int \<Rightarrow> ast list \<Rightarrow> ast \<Rightarrow> CodeVisitor \<Rightarrow> CodeVisitor" where
  "visit_Assign lineno targets val s = fold (check_target lineno val) targets s"

definition visit_Call :: "int \<Rightarrow> ast \<Rightarrow> CodeVisitor \<Rightarrow> CodeVisitor" where
  "visit_Call lineno func s =
     (case func of
        Name _ func_name \<Rightarrow>
          (let s1 = (if func_name \<in> set [''pickle.loads'', ''yaml.load'']
                     then s\<lparr>has_unsafe_deserialization := True,
                            deserialization_locations := deserialization_locations s @ [lineno]\<rparr>
                     else s)
           in if func_name \<in> set [''print'', ''logging.debug'']
              then s1\<lparr>has_debug_info := True, debug_locations := debug_locations s1 @ [lineno]\<rparr>
              else s1)
      | _ \<Rightarrow> s)"

fun get_string_value :: "ast \<Rightarrow> string" where
  "get_string_value (Constant l (CStr s)) = s"
| "get_string_value n = []"

definition sql_keywords :: "string list" where
  "sql_keywords = [''select'', ''insert'', ''update'', ''delete'', ''where'', ''from'']"

definition is_sql_string :: "ast \<Rightarrow> ast \<Rightarrow> bool" where
  "is_sql_string left right =
     (let combined = lower (get_string_value left @ '' '' @ get_string_value right)
      in list_ex (\<lambda>keyword. sublist keyword combined) sql_keywords)"

definition visit_BinOp :: "int \<Rightarrow> ast \<Rightarrow> operator \<Rightarrow> ast \<Rightarrow> CodeVisitor \<Rightarrow> CodeVisitor" where
  "visit_BinOp lineno left op right s =
     (if op = Add then
        if list_ex is_Str [left, right] then
          if is_sql_string left right
          then s\<lparr>has_sql_concatenation := True, sql_locations := sql_locations s @ [lineno]\<rparr>
          else s
        else s
      else s)"

fun is_Exception_name :: "ast \<Rightarrow> bool" where
  "is_Exception_name (Name l ident) = (ident = ''Exception'')"
| "is_Exception_name t = False"

definition visit_ExceptHandler :: "int \<Rightarrow> ast option \<Rightarrow> CodeVisitor \<Rightarrow> CodeVisitor" where
  "visit_ExceptHandler lineno t s =
     (if t = None \<or> (case t of Some e \<Rightarrow> is_Exception_name e | None \<Rightarrow> False)
      then s\<lparr>has_broad_exception_handling := True,
             exception_locations := exception_locations s @ [lineno]\<rparr>
      else s)"

text \<open>\<^verbatim>\<open>CodeVisitor.visit\<close>.\<close>

function (sequential) CodeVisitor_visit :: "ast \<Rightarrow> CodeVisitor \<Rightarrow> CodeVisitor" where
  "CodeVisitor_visit (Assign l ts v) s =
     fold CodeVisitor_visit (iter_child_nodes (Assign l ts v)) (visit_Assign l ts v s)"
| "CodeVisitor_visit (Call l f args) s =
     fold CodeVisitor_visit (iter_child_nodes (Call l f args)) (visit_Call l f s)"
| "CodeVisitor_visit (BinOp l a op b) s =
     fold CodeVisitor_visit (iter_child_nodes (BinOp l a op b)) (visit_BinOp l a op b s)"
| "CodeVisitor_visit (ExceptHandler l t cs) s =
     fold CodeVisitor_visit (iter_child_nodes (ExceptHandler l t cs)) (visit_ExceptHandler l t s)"
| "CodeVisitor_visit node s = fold CodeVisitor_visit (iter_child_nodes node) s"
  by pat_completeness auto
termination
  by (relation "measure (\<lambda>(t, s). size t)")
     (auto simp del: iter_child_nodes.simps dest: size_child)

text \<open>The second \<^verbatim>\<open>ComplexityVisitor\<close>, of \<^verbatim>\<open>CodeSafetyAnalyzer.py\<close>: its state is the
  counter. The \<^verbatim>\<open>And\<close>/\<open>Or\<close> node is the first child of a \<open>BoolOp\<close>, and
  \<^verbatim>\<open>visit_And\<close>/\<^verbatim>\<open>visit_Or\<close> count it.\<close>

fun visit_boolop :: "boolop \<Rightarrow> int \<Rightarrow> int" where
  "visit_boolop And c = c + 1"
| "visit_boolop Or c = c + 1"

function (sequential) complexity_visit :: "ast \<Rightarrow> int \<Rightarrow> int" where
  "complexity_visit (If l cs) c = fold complexity_visit (iter_child_nodes (If l cs)) (c + 1)"
| "complexity_visit (While l cs) c = fold complexity_visit (iter_child_nodes (While l cs)) (c + 1)"
| "complexity_visit (For l cs) c = fold complexity_visit (iter_child_nodes (For l cs)) (c + 1)"
| "complexity_visit (BoolOp l op vs) c =
     fold complexity_visit (iter_child_nodes (BoolOp l op vs)) (visit_boolop op c)"
| "complexity_visit node c = fold complexity_visit (iter_child_nodes node) c"
  by pat_completeness auto
termination
  by (relation "measure (\<lambda>(t, c). size t)")
     (auto simp del: iter_child_nodes.simps dest: size_child)

record SafetyMetrics =
  cyclomatic_complexity :: int
  number_of_functions :: nat
  number_of_classes :: nat
  lines_of_code :: int
  comment_ratio :: rat

definition calculate_metrics :: "ast \<Rightarrow> SafetyMetrics" where
  "calculate_metrics tree =
     \<lparr>cyclomatic_complexity = complexity_visit tree 1,
      number_of_functions = length (filter is_FunctionDef (walk tree)),
      number_of_classes = length (filter is_ClassDef (walk tree)),
      lines_of_code = 0, comment_ratio = 0\<rparr>"

record Finding =
  pattern :: CodePattern
  locations :: "int list"

definition analyze_patterns :: "CodeVisitor \<Rightarrow> Finding list" where
  "analyze_patterns visitor =
     (if has_hardcoded_credentials visitor
      then [\<lparr>pattern = hardcoded_credentials, locations = credential_locations visitor\<rparr>] else []) @
     (if has_unsafe_deserialization visitor
      then [\<lparr>pattern = unsafe_deserialization, locations = deserialization_locations visitor\<rparr>]
      else []) @
     (if has_sql_concatenation visitor
      then [\<lparr>pattern = sql_concatenation, locations = sql_locations visitor\<rparr>] else []) @
     (if has_unsafe_file_ops visitor
      then [\<lparr>pattern = file_path_manipulation, locations = file_op_locations visitor\<rparr>] else []) @
     (if has_debug_info visitor
      then [\<lparr>pattern = debug_info, locations = debug_locations visitor\<rparr>] else []) @
     (if has_broad_exception_handling visitor
      then [\<lparr>pattern = error_suppression, locations = exception_locations visitor\<rparr>] else [])"

record SafetyRecommendation =
  title :: string
  rec_description :: string
  rec_remediation :: string
  priority :: string

definition safety_recommendations :: "Finding list \<Rightarrow> SafetyMetrics \<Rightarrow> SafetyRecommendation list" where
  "safety_recommendations fs ms =
     map (\<lambda>finding.
            \<lparr>title = ''Address '' @ pattern_name (pattern finding),
             rec_description = pattern_description (pattern finding),
             rec_remediation = remediation (pattern finding),
             priority = risk_level (pattern finding)\<rparr>) fs @
     (if cyclomatic_complexity ms > 10
      then [\<lparr>title = ''Reduce Code Complexity'',
             rec_description = ''High cyclomatic complexity detected'',
             rec_remediation = ''Consider breaking down complex functions'',
             priority = ''medium''\<rparr>]
      else [])"

record SafetyResults =
  findings :: "Finding list"
  safety_metrics :: SafetyMetrics
  recommendations_of_safety :: "SafetyRecommendation list"

text \<open>The body of the \<^verbatim>\<open>try\<close> block after parsing.\<close>

definition safety_analyze_tree :: "ast \<Rightarrow> SafetyResults" where
  "safety_analyze_tree tree =
     (let ms = calculate_metrics tree;
          visitor = CodeVisitor_visit tree CodeVisitor_init;
          fs = analyze_patterns visitor
      in \<lparr>findings = fs, safety_metrics = ms,
          recommendations_of_safety = safety_recommendations fs ms\<rparr>)"

definition safety_analyze_code :: "(string \<Rightarrow> exn + ast) \<Rightarrow> string \<Rightarrow> SafetyResults result" where
  "safety_analyze_code parse code =
     (case (case parse code of
              Inl e \<Rightarrow> Inl e
            | Inr tree \<Rightarrow> Inr (safety_analyze_tree tree)) of
        Inr results \<Rightarrow> Report results
      | Inl SyntaxError \<Rightarrow> ErrorResult ''Invalid Python syntax''
      | Inl _ \<Rightarrow> ErrorResult ''Analysis failed'')"

text \<open>The statements of the sample of the source, one per line:
  \<^verbatim>\<open>query = "SELECT * FROM users WHERE id = " + user_input\<close>,
  \<^verbatim>\<open>api_key = "1234secret"\<close>, \<^verbatim>\<open>print("Processing user:", user_input)\<close>,
  \<^verbatim>\<open>open(user_input + ".txt", "r")\<close>, \<^verbatim>\<open>pickle.loads(data)\<close>.\<close>

definition unit_sample :: ast where
  "unit_sample =
     Other [Assign 1 [Name 1 ''query'']
              (BinOp 1 (Constant 1 (CStr ''SELECT * FROM users WHERE id = '')) Add
                 (Name 1 ''user_input'')),
            Assign 2 [Name 2 ''api_key''] (Constant 2 (CStr ''1234secret'')),
            Other [Call 3 (Name 3 ''print'')
                     [Constant 3 (CStr ''Processing user:''), Name 3 ''user_input'']],
            Other [Call 4 (Name 4 ''open'')
                     [BinOp 4 (Name 4 ''user_input'') Add (Constant 4 (CStr ''.txt'')),
                      Constant 4 (CStr ''r'')]],
            Other [Call 5 (Attribute 5 (Name 5 ''pickle'') ''loads'') [Name 5 ''data'']]]"

subsection \<open>The visitor as one pass over the nodes\<close>

fun check_node :: "ast \<Rightarrow> CodeVisitor \<Rightarrow> CodeVisitor" where
  "check_node (Assign l ts v) s = visit_Assign l ts v s"
| "check_node (Call l f args) s = visit_Call l f s"
| "check_node (BinOp l a op b) s = visit_BinOp l a op b s"
| "check_node (ExceptHandler l t cs) s = visit_ExceptHandler l t s"
| "check_node t s = s"

lemma CodeVisitor_visit_unfold:
  "CodeVisitor_visit t s = fold CodeVisitor_visit (iter_child_nodes t) (check_node t s)"
  by (cases t) simp_all

lemma fold_concat_map: "fold f (concat (map g xs)) s = fold (\<lambda>x. fold f (g x)) xs s"
  by (induction xs arbitrary: s) simp_all

lemma CodeVisitor_visit_fold: "CodeVisitor_visit t s = fold check_node (walk t) s"
proof (induction t arbitrary: s rule: measure_induct_rule [where f = size])
  case (less t)
  have "fold CodeVisitor_visit (iter_child_nodes t) s' =
        fold (\<lambda>c. fold check_node (walk c)) (iter_child_nodes t) s'" for s'
    by (rule fold_cong) (auto simp: less size_child)
  then show ?case
    by (subst CodeVisitor_visit_unfold, subst walk.simps) (simp add: fold_concat_map)
qed

fun credential_target :: "ast \<Rightarrow> bool" where
  "credential_target (Name l ident) = is_credential_name ident"
| "credential_target t = False"

text \<open>The lines one node adds to \<open>credential_locations\<close> and to
  \<open>deserialization_locations\<close>.\<close>

fun credential_hits :: "ast \<Rightarrow> int list" where
  "credential_hits (Assign l ts v) =
     (if is_Constant v then map (\<lambda>t. l) (filter credential_target ts) else [])"
| "credential_hits t = []"

fun deserialization_hits :: "ast \<Rightarrow> int list" where
  "deserialization_hits (Call l (Name lf func_name) args) =
     (if func_name = ''pickle.loads'' \<or> func_name = ''yaml.load'' then [l] else [])"
| "deserialization_hits t = []"

lemma is_Str_Constant: "is_Str v \<Longrightarrow> is_Constant v"
  by (cases v rule: is_Str.cases) simp_all

lemma check_target_effect:
  "credential_locations (check_target l v t s) =
     credential_locations s @ (if is_Constant v \<and> credential_target t then [l] else [])"
  "has_hardcoded_credentials (check_target l v t s) =
     (has_hardcoded_credentials s \<or> (is_Constant v \<and> credential_target t))"
  "deserialization_locations (check_target l v t s) = deserialization_locations s"
  "has_unsafe_deserialization (check_target l v t s) = has_unsafe_deserialization s"
  "file_op_locations (check_target l v t s) = file_op_locations s"
  "has_unsafe_file_ops (check_target l v t s) = has_unsafe_file_ops s"
  by (cases t; auto simp: check_target_def dest: is_Str_Constant)+

lemma fold_check_target:
  "credential_locations (fold (check_target l v) ts s) =
     credential_locations s @ (if is_Constant v then map (\<lambda>t. l) (filter credential_target ts) else []) \<and>
   has_hardcoded_credentials (fold (check_target l v) ts s) =
     (has_hardcoded_credentials s \<or> (is_Constant v \<and> filter credential_target ts \<noteq> [])) \<and>
   deserialization_locations (fold (check_target l v) ts s) = deserialization_locations s \<and>
   has_unsafe_deserialization (fold (check_target l v) ts s) = has_unsafe_deserialization s \<and>
   file_op_locations (fold (check_target l v) ts s) = file_op_locations s \<and>
   has_unsafe_file_ops (fold (check_target l v) ts s) = has_unsafe_file_ops s"
proof (induction ts arbitrary: s)
  case Nil
  show ?case by simp
next
  case (Cons t ts)
  show ?case
    using Cons [of "check_target l v t s"] by (auto simp: check_target_effect)
qed

lemma check_node_effect:
  "credential_locations (check_node t s) = credential_locations s @ credential_hits t"
  "has_hardcoded_credentials (check_node t s) =
     (has_hardcoded_credentials s \<or> credential_hits t \<noteq> [])"
  "deserialization_locations (check_node t s) =
     deserialization_locations s @ deserialization_hits t"
  "has_unsafe_deserialization (check_node t s) =
     (has_unsafe_deserialization s \<or> deserialization_hits t \<noteq> [])"
  "file_op_locations (check_node t s) = file_op_locations s"
  "has_unsafe_file_ops (check_node t s) = has_unsafe_file_ops s"
proof -
  have call: "deserialization_locations (visit_Call l f s) =
        deserialization_locations s @ deserialization_hits (Call l f args) \<and>
      has_unsafe_deserialization (visit_Call l f s) =
        (has_unsafe_deserialization s \<or> deserialization_hits (Call l f args) \<noteq> []) \<and>
      credential_locations (visit_Call l f s) = credential_locations s \<and>
      has_hardcoded_credentials (visit_Call l f s) = has_hardcoded_credentials s \<and>
      file_op_locations (visit_Call l f s) = file_op_locations s \<and>
      has_unsafe_file_ops (visit_Call l f s) = has_unsafe_file_ops s" for l f args
    by (cases f) (simp_all add: visit_Call_def Let_def)
  show "credential_locations (check_node t s) = credential_locations s @ credential_hits t"
    "has_hardcoded_credentials (check_node t s) =
       (has_hardcoded_credentials s \<or> credential_hits t \<noteq> [])"
    "deserialization_locations (check_node t s) =
       deserialization_locations s @ deserialization_hits t"
    "has_unsafe_deserialization (check_node t s) =
       (has_unsafe_deserialization s \<or> deserialization_hits t \<noteq> [])"
    "file_op_locations (check_node t s) = file_op_locations s"
    "has_unsafe_file_ops (check_node t s) = has_unsafe_file_ops s"
    using call
    by (cases t; simp add: visit_Assign_def fold_check_target visit_BinOp_def
          visit_ExceptHandler_def)+
qed

lemma fold_check_node_effect:
  "credential_locations (fold check_node ns s) =
     credential_locations s @ concat (map credential_hits ns) \<and>
   has_hardcoded_credentials (fold check_node ns s) =
     (has_hardcoded_credentials s \<or> concat (map credential_hits ns) \<noteq> []) \<and>
   deserialization_locations (fold check_node ns s) =
     deserialization_locations s @ concat (map deserialization_hits ns) \<and>
   has_unsafe_deserialization (fold check_node ns s) =
     (has_unsafe_deserialization s \<or> concat (map deserialization_hits ns) \<noteq> []) \<and>
   file_op_locations (fold check_node ns s) = file_op_locations s \<and>
   has_unsafe_file_ops (fold check_node ns s) = has_unsafe_file_ops s"
proof (induction ns arbitrary: s)
  case Nil
  show ?case by simp
next
  case (Cons n ns)
  show ?case
    using Cons [of "check_node n s"] by (auto simp: check_node_effect)
qed

lemma CodeVisitor_effect:
  "credential_locations (CodeVisitor_visit tree CodeVisitor_init) =
     concat (map credential_hits (walk tree))"
  "has_hardcoded_credentials (CodeVisitor_visit tree CodeVisitor_init) =
     (concat (map credential_hits (walk tree)) \<noteq> [])"
  "deserialization_locations (CodeVisitor_visit tree CodeVisitor_init) =
     concat (map deserialization_hits (walk tree))"
  "has_unsafe_deserialization (CodeVisitor_visit tree CodeVisitor_init) =
     (concat (map deserialization_hits (walk tree)) \<noteq> [])"
  "file_op_locations (CodeVisitor_visit tree CodeVisitor_init) = []"
  "has_unsafe_file_ops (CodeVisitor_visit tree CodeVisitor_init) = False"
  using fold_check_node_effect [of "walk tree" CodeVisitor_init]
  by (simp_all add: CodeVisitor_visit_fold CodeVisitor_init_def)


lemma patterns_distinct:
  "unsafe_deserialization \<noteq> hardcoded_credentials"
  "sql_concatenation \<noteq> hardcoded_credentials"
  "file_path_manipulation \<noteq> hardcoded_credentials"
  "debug_info \<noteq> hardcoded_credentials"
  "error_suppression \<noteq> hardcoded_credentials"
  "hardcoded_credentials \<noteq> file_path_manipulation"
  "unsafe_deserialization \<noteq> file_path_manipulation"
  "sql_concatenation \<noteq> file_path_manipulation"
  "debug_info \<noteq> file_path_manipulation"
  "error_suppression \<noteq> file_path_manipulation"
  by (simp_all add: hardcoded_credentials_def unsafe_deserialization_def sql_concatenation_def
        file_path_manipulation_def debug_info_def error_suppression_def)

lemma member_nonempty: "x \<in> set xs \<Longrightarrow> xs \<noteq> []"
  by auto

lemma credentials_finding:
  "f \<in> set (analyze_patterns visitor) \<and> pattern f = hardcoded_credentials \<longleftrightarrow>
   has_hardcoded_credentials visitor \<and>
   f = \<lparr>pattern = hardcoded_credentials, locations = credential_locations visitor\<rparr>"
  by (auto simp: analyze_patterns_def patterns_distinct)

lemma credential_target_iff:
  "credential_target t \<longleftrightarrow> (\<exists>lt ident. t = Name lt ident \<and> is_credential_name ident)"
  by (cases t) simp_all

lemma credential_hits_iff:
  "l \<in> set (credential_hits n) \<longleftrightarrow>
   (\<exists>ts v. n = Assign l ts v \<and> is_Constant v \<and> (\<exists>t \<in> set ts. credential_target t))"
  by (cases n) auto

subsection \<open>Hardcoded credentials\<close>

text \<open>The assignments \<^verbatim>\<open>api_key = 1234\<close>, \<^verbatim>\<open>api_key = ...\<close> and the annotated
  \<^verbatim>\<open>api_key: str = "1234secret"\<close>.\<close>

definition unit_numeric_key :: ast where
  "unit_numeric_key = Other [Assign 1 [Name 1 ''api_key''] (Constant 1 (CInt 1234))]"

definition unit_ellipsis_key :: ast where
  "unit_ellipsis_key = Other [Assign 1 [Name 1 ''api_key''] (Constant 1 CEllipsis)]"

definition unit_annotated_key :: ast where
  "unit_annotated_key =
     Other [AnnAssign 1 (Name 1 ''api_key'') (Name 1 ''str'')
              (Some (Constant 1 (CStr ''1234secret'')))]"

text \<open>C6, as stated, fails in both halves. An assignment whose value is a literal that is
  not a string is flagged too, since the visitor accepts every \<^verbatim>\<open>ast.Constant\<close>; and an
  annotated assignment of a literal string to such a name is not flagged, since the visitor
  only has a method for the plain assignment statement.\<close>

theorem hardcoded_credentials_counterexample:
  "\<not> is_Str (Constant 1 (CInt 1234)) \<and>
   findings (safety_analyze_tree unit_numeric_key) =
     [\<lparr>pattern = hardcoded_credentials, locations = [1]\<rparr>] \<and>
   \<not> is_Str (Constant 1 CEllipsis) \<and>
   findings (safety_analyze_tree unit_ellipsis_key) =
     [\<lparr>pattern = hardcoded_credentials, locations = [1]\<rparr>] \<and>
   is_credential_name ''api_key'' \<and> is_Str (Constant 1 (CStr ''1234secret'')) \<and>
   findings (safety_analyze_tree unit_annotated_key) = []"
  by code_simp

text \<open>C6 (amended): every plain assignment statement (\<^verbatim>\<open>ast.Assign\<close>: \<^verbatim>\<open>target = value\<close>,
  not an annotated or augmented assignment and not an assignment expression) that has a
  bare name among its targets which, lower-cased, contains \<open>password\<close>, \<open>secret\<close>, \<open>key\<close>
  or \<open>token\<close>, and whose value is a literal string, yields the hardcoded-credentials
  finding, with the assignment's line among its locations; and every line of that finding
  is the line of a plain assignment statement with such a target whose value is a literal
  constant (a string, bytes, a number, a boolean, \<^verbatim>\<open>None\<close> or \<^verbatim>\<open>...\<close>): no assignment
  whose value is not a literal constant is flagged.\<close>

theorem hardcoded_credentials_flagged:
  "(Assign l ts v \<in> set (walk tree) \<and> Name lt ident \<in> set ts \<and> is_credential_name ident \<and>
    is_Str v \<longrightarrow>
      (\<exists>f \<in> set (findings (safety_analyze_tree tree)).
         pattern f = hardcoded_credentials \<and> l \<in> set (locations f))) \<and>
   (f' \<in> set (findings (safety_analyze_tree tree)) \<and> pattern f' = hardcoded_credentials \<and>
    l' \<in> set (locations f') \<longrightarrow>
      (\<exists>ts' v' lt' ident'. Assign l' ts' v' \<in> set (walk tree) \<and> Name lt' ident' \<in> set ts' \<and>
         is_credential_name ident' \<and> is_Constant v'))"
proof -
  let ?V = "CodeVisitor_visit tree CodeVisitor_init"
  have fs: "findings (safety_analyze_tree tree) = analyze_patterns ?V"
    by (simp add: safety_analyze_tree_def Let_def)
  have a: "\<exists>f \<in> set (findings (safety_analyze_tree tree)).
         pattern f = hardcoded_credentials \<and> l \<in> set (locations f)"
    if h: "Assign l ts v \<in> set (walk tree)" "Name lt ident \<in> set ts"
      "is_credential_name ident" "is_Str v"
  proof -
    have "credential_target (Name lt ident)" using h(3) by simp
    then have "l \<in> set (credential_hits (Assign l ts v))"
      using h(2,4) by (auto simp: credential_hits_iff dest: is_Str_Constant)
    then have "\<exists>n \<in> set (walk tree). l \<in> set (credential_hits n)"
      using h(1) by blast
    then have l: "l \<in> set (concat (map credential_hits (walk tree)))"
      by simp
    then have "concat (map credential_hits (walk tree)) \<noteq> []" by (rule member_nonempty)
    then have ne: "has_hardcoded_credentials ?V"
      using CodeVisitor_effect(2) [of tree] by blast
    let ?f = "\<lparr>pattern = hardcoded_credentials, locations = credential_locations ?V\<rparr>"
    have m: "?f \<in> set (analyze_patterns ?V)"
      using credentials_finding [of ?f ?V] ne by blast
    have "pattern ?f = hardcoded_credentials \<and> l \<in> set (locations ?f)"
      using l CodeVisitor_effect(1) [of tree] by simp
    then show ?thesis
      unfolding fs using m by blast
  qed
  have b: "\<exists>ts' v' lt' ident'. Assign l' ts' v' \<in> set (walk tree) \<and> Name lt' ident' \<in> set ts' \<and>
         is_credential_name ident' \<and> is_Constant v'"
    if h: "f' \<in> set (findings (safety_analyze_tree tree))" "pattern f' = hardcoded_credentials"
      "l' \<in> set (locations f')"
  proof -
    have "f' = \<lparr>pattern = hardcoded_credentials, locations = credential_locations ?V\<rparr>"
      using h(1,2) credentials_finding [of f' ?V] unfolding fs by blast
    then have "l' \<in> set (concat (map credential_hits (walk tree)))"
      using h(3) by (simp add: CodeVisitor_effect)
    then obtain n where n: "n \<in> set (walk tree)" "l' \<in> set (credential_hits n)" by auto
    then obtain ts' v' t where "n = Assign l' ts' v'" "is_Constant v'" "t \<in> set ts'"
        "credential_target t"
      by (auto simp: credential_hits_iff)
    then show ?thesis
      using n(1) by (auto simp: credential_target_iff)
  qed
  show ?thesis using a b by blast
qed

theorem hardcoded_credentials_flagged_witness:
  "Assign 2 [Name 2 ''api_key''] (Constant 2 (CStr ''1234secret'')) \<in> set (walk unit_sample) \<and>
   is_credential_name ''api_key'' \<and> is_Str (Constant 2 (CStr ''1234secret'')) \<and>
   (\<exists>f \<in> set (findings (safety_analyze_tree unit_sample)).
      pattern f = hardcoded_credentials \<and> 2 \<in> set (locations f)) \<and>
   \<lparr>pattern = hardcoded_credentials, locations = [2]\<rparr>
     \<in> set (findings (safety_analyze_tree unit_sample)) \<and>
   (\<exists>ts' v' lt' ident'. Assign 2 ts' v' \<in> set (walk unit_sample) \<and> Name lt' ident' \<in> set ts' \<and>
      is_credential_name ident' \<and> is_Constant v')"
proof -
  have h1: "Assign 2 [Name 2 ''api_key''] (Constant 2 (CStr ''1234secret''))
            \<in> set (walk unit_sample)"
    by code_simp
  have h2: "is_credential_name ''api_key''"
    by code_simp
  have h3: "is_Str (Constant 2 (CStr ''1234secret''))"
    by simp
  have h4: "\<lparr>pattern = hardcoded_credentials, locations = [2]\<rparr>
            \<in> set (findings (safety_analyze_tree unit_sample))"
    by code_simp
  note t = hardcoded_credentials_flagged
    [of 2 "[Name 2 ''api_key'']" "Constant 2 (CStr ''1234secret'')" unit_sample 2 "''api_key''"
        "\<lparr>pattern = hardcoded_credentials, locations = [2]\<rparr>" 2]
  show ?thesis
    using t h1 h2 h3 h4 by simp
qed


subsection \<open>Unsafe deserialization\<close>

text \<open>The identifier of a \<^verbatim>\<open>Name\<close> node never contains a dot: the parser turns
  \<^verbatim>\<open>pickle.loads\<close> into an \<^verbatim>\<open>Attribute\<close> node over the name \<^verbatim>\<open>pickle\<close>. On such trees
  the comparison of \<^verbatim>\<open>node.func.id\<close> with \<^verbatim>\<open>'pickle.loads'\<close> and \<^verbatim>\<open>'yaml.load'\<close>
  never succeeds.\<close>

lemma deserialization_hits_dotted:
  "l \<in> set (deserialization_hits n) \<Longrightarrow>
   \<exists>lf func_name args. n = Call l (Name lf func_name) args \<and> CHR ''.'' \<in> set func_name"
  by (cases n rule: deserialization_hits.cases) (auto split: if_splits)

lemma deserialization_never_flagged:
  assumes "\<And>lf ident. Name lf ident \<in> set (walk tree) \<Longrightarrow> CHR ''.'' \<notin> set ident"
  shows "deserialization_locations (CodeVisitor_visit tree CodeVisitor_init) = [] \<and>
         \<not> has_unsafe_deserialization (CodeVisitor_visit tree CodeVisitor_init)"
proof -
  have "deserialization_hits n = []" if n: "n \<in> set (walk tree)" for n
  proof (rule ccontr)
    assume "deserialization_hits n \<noteq> []"
    then obtain l where "l \<in> set (deserialization_hits n)"
      by (cases "deserialization_hits n") auto
    then obtain lf func_name args
      where c: "n = Call l (Name lf func_name) args" "CHR ''.'' \<in> set func_name"
      using deserialization_hits_dotted by blast
    have "Name lf func_name \<in> set (walk n)"
      unfolding c(1) by (rule walk_child [of "Name lf func_name"]) (simp_all add: walk_self)
    then have "Name lf func_name \<in> set (walk tree)"
      using n walk_trans by blast
    then show False using assms c(2) by blast
  qed
  then have "concat (map deserialization_hits (walk tree)) = []" by simp
  then show ?thesis by (simp add: CodeVisitor_effect)
qed

text \<open>The calls \<^verbatim>\<open>pickle.loads(data)\<close> and \<^verbatim>\<open>yaml.load(text)\<close>, as the parser builds
  them.\<close>

definition unit_deserialize :: ast where
  "unit_deserialize =
     Other [Other [Call 1 (Attribute 1 (Name 1 ''pickle'') ''loads'') [Name 1 ''data'']],
            Other [Call 2 (Attribute 2 (Name 2 ''yaml'') ''load'') [Name 2 ''text'']]]"

text \<open>C7 against the code: the two calls of the fixed list yield no finding.\<close>

theorem unsafe_deserialization_not_flagged:
  "findings (safety_analyze_tree unit_deserialize) = [] \<and>
   has_unsafe_deserialization (CodeVisitor_visit unit_deserialize CodeVisitor_init) = False \<and>
   deserialization_locations (CodeVisitor_visit unit_deserialize CodeVisitor_init) = []"
  by code_simp

subsection \<open>Unsafe file path handling\<close>

text \<open>No method of the visitor sets \<open>has_unsafe_file_ops\<close>: no tree yields the finding.\<close>

lemma file_ops_never_flagged:
  "filter (\<lambda>f. pattern f = file_path_manipulation) (findings (safety_analyze_tree tree)) = []"
  by (simp add: safety_analyze_tree_def Let_def analyze_patterns_def CodeVisitor_effect
        patterns_distinct)

text \<open>The call \<^verbatim>\<open>open(user_input + ".txt", "r")\<close> of the source's sample.\<close>

definition unit_open :: ast where
  "unit_open =
     Other [Other [Call 1 (Name 1 ''open'')
                     [BinOp 1 (Name 1 ''user_input'') Add (Constant 1 (CStr ''.txt'')),
                      Constant 1 (CStr ''r'')]]]"

text \<open>C8 against the code: the file-open call on a concatenated path yields no finding.\<close>

theorem unsafe_file_path_not_flagged:
  "findings (safety_analyze_tree unit_open) = [] \<and>
   has_unsafe_file_ops (CodeVisitor_visit unit_open CodeVisitor_init) = False \<and>
   file_op_locations (CodeVisitor_visit unit_open CodeVisitor_init) = []"
  by code_simp

subsection \<open>Failure results\<close>

text \<open>C3, as stated, fails on the text of the message: for an input the parser rejects both
  analyzers return \<^verbatim>\<open>{'error': 'Invalid Python syntax'}\<close>.\<close>

theorem syntax_error_result_counterexample:
  "analyze_code default_analyzer (parse_raises SyntaxError) ''def f(:'' \<noteq>
     ErrorResult ''Invalid syntax'' \<and>
   safety_analyze_code (parse_raises SyntaxError) ''def f(:'' \<noteq> ErrorResult ''Invalid syntax''"
  by (simp add: analyze_code_def safety_analyze_code_def parse_raises_def)

text \<open>C3 (amended): for every input the parser rejects with a syntax error, both analyzers
  return exactly the error result \<open>Invalid Python syntax\<close>; when parsing raises any other
  exception they return exactly \<open>Analysis failed\<close>; an error result carries nothing but the
  message. After a successful parse neither analyzer fails: both return a report.\<close>

theorem syntax_error_result:
  "(parse code = Inl SyntaxError \<longrightarrow>
      analyze_code self parse code = ErrorResult ''Invalid Python syntax'' \<and>
      safety_analyze_code parse code = ErrorResult ''Invalid Python syntax'') \<and>
   (parse code = Inl e \<and> e \<noteq> SyntaxError \<longrightarrow>
      analyze_code self parse code = ErrorResult ''Analysis failed'' \<and>
      safety_analyze_code parse code = ErrorResult ''Analysis failed'') \<and>
   (parse code = Inr tree \<longrightarrow>
      (\<exists>a. analyze_code self parse code = Report a) \<and>
      safety_analyze_code parse code = Report (safety_analyze_tree tree))"
proof -
  have a: "analyze_code self parse code = ErrorResult ''Invalid Python syntax'' \<and>
      safety_analyze_code parse code = ErrorResult ''Invalid Python syntax''"
    if "parse code = Inl SyntaxError"
    using that by (simp add: analyze_code_def safety_analyze_code_def)
  have b: "analyze_code self parse code = ErrorResult ''Analysis failed'' \<and>
      safety_analyze_code parse code = ErrorResult ''Analysis failed''"
    if "parse code = Inl e" "e \<noteq> SyntaxError"
    using that by (cases e) (simp_all add: analyze_code_def safety_analyze_code_def)
  have c: "(\<exists>a. analyze_code self parse code = Report a) \<and>
      safety_analyze_code parse code = Report (safety_analyze_tree tree)"
    if "parse code = Inr tree"
    using analyze_code_parsed [of parse code tree self, OF that] that
    by (auto simp: safety_analyze_code_def)
  show ?thesis using a b c by blast
qed

theorem syntax_error_result_witness:
  "parse_raises SyntaxError ''def f(:'' = Inl SyntaxError \<and>
   analyze_code default_analyzer (parse_raises SyntaxError) ''def f(:'' =
     ErrorResult ''Invalid Python syntax'' \<and>
   safety_analyze_code (parse_raises SyntaxError) ''def f(:'' =
     ErrorResult ''Invalid Python syntax'' \<and>
   parse_raises OtherException ''x'' = Inl OtherException \<and> OtherException \<noteq> SyntaxError \<and>
   analyze_code default_analyzer (parse_raises OtherException) ''x'' =
     ErrorResult ''Analysis failed'' \<and>
   safety_analyze_code (parse_raises OtherException) ''x'' = ErrorResult ''Analysis failed'' \<and>
   parse_to unit_assignment ''x = 1'' = Inr unit_assignment \<and>
   (\<exists>a. analyze_code default_analyzer (parse_to unit_assignment) ''x = 1'' = Report a)"
proof -
  have h1: "parse_raises SyntaxError ''def f(:'' = Inl SyntaxError"
    by (simp add: parse_raises_def)
  have h2: "parse_raises OtherException ''x'' = Inl OtherException"
    by (simp add: parse_raises_def)
  have h3: "parse_to unit_assignment ''x = 1'' = Inr unit_assignment"
    by (simp add: parse_to_def)
  note t1 = syntax_error_result
    [of "parse_raises SyntaxError" "''def f(:''" default_analyzer SyntaxError unit_assignment]
  note t2 = syntax_error_result
    [of "parse_raises OtherException" "''x''" default_analyzer OtherException unit_assignment]
  note t3 = syntax_error_result
    [of "parse_to unit_assignment" "''x = 1''" default_analyzer SyntaxError unit_assignment]
  show ?thesis
    using t1 t2 t3 h1 h2 h3 by simp
qed

end
